theory Spec2Isabelle
  imports Main "HOL-Library.Word" "HOL-Library.AList" "HOL-Library.Char_ord"
    "HOL-Library.List_Lexorder" "HOL-Library.Sublist"
begin

unbundle bit_operations_syntax

section \<open>The feed-to-webhook pipeline of \<^verbatim>\<open>news_pipe.py\<close>\<close>

text \<open>
  A shallow embedding of \<^verbatim>\<open>src/news_pipe.py\<close>. Python strings are modelled as
  \<^typ>\<open>string\<close>, every \<^typ>\<open>char\<close> standing for one code point below 256; on that
  range \<^verbatim>\<open>str.strip\<close>, \<^verbatim>\<open>str.lower\<close>, string comparison and the UTF-8 encoding are
  modelled exactly. Everything the program reads from outside (the environment variable,
  the feed parser, the outcome of each HTTP request, the state file) is a parameter;
  everything it does to the outside (requests, pauses, printed lines, the file it writes)
  is recorded in an explicit world value that is passed along.
\<close>

subsection \<open>Strings\<close>

text \<open>The code points below 256 for which \<^verbatim>\<open>str.isspace\<close> holds; these are the ones
  \<^verbatim>\<open>str.strip()\<close> removes.\<close>

definition is_space :: "char \<Rightarrow> bool" where
  "is_space c = (let n = (of_char c :: nat) in
     (9 \<le> n \<and> n \<le> 13) \<or> (28 \<le> n \<and> n \<le> 32) \<or> n = 133 \<or> n = 160)"

definition strip :: "string \<Rightarrow> string" where
  "strip s = rev (dropWhile is_space (rev (dropWhile is_space s)))"

text \<open>\<^verbatim>\<open>str.lower()\<close> on code points below 256: \<^verbatim>\<open>A\<close>..\<^verbatim>\<open>Z\<close> and the Latin-1 capitals
  \<^verbatim>\<open>0xC0\<close>..\<^verbatim>\<open>0xDE\<close> (the multiplication sign \<^verbatim>\<open>0xD7\<close> apart) move up by 32.\<close>

definition lower_char :: "char \<Rightarrow> char" where
  "lower_char c = (let n = (of_char c :: nat) in
     if (65 \<le> n \<and> n \<le> 90) \<or> (192 \<le> n \<and> n \<le> 222 \<and> n \<noteq> 215)
     then char_of (n + 32) else c)"

definition lower :: "string \<Rightarrow> string" where
  "lower s = map lower_char s"

text \<open>The operator \<^verbatim>\<open>k in t\<close> on strings: \<open>k\<close> occurs in \<open>t\<close> as a contiguous block.\<close>

fun str_in :: "string \<Rightarrow> string \<Rightarrow> bool" where
  "str_in k [] = (k = [])"
| "str_in k (c # cs) = (take (length k) (c # cs) = k \<or> str_in k cs)"

text \<open>\<^verbatim>\<open>x or ""\<close> for a value that is \<^verbatim>\<open>None\<close> or a string; \<^verbatim>\<open>entry.get(key, "")\<close>
  gives the same on an entry whose fields are absent or strings.\<close>

definition or_empty :: "string option \<Rightarrow> string" where
  "or_empty x = (case x of None \<Rightarrow> [] | Some s \<Rightarrow> s)"

text \<open>\<^verbatim>\<open>"k" in entry and entry.k\<close>: the field is present and not the empty string.\<close>

definition present :: "string option \<Rightarrow> bool" where
  "present x = (case x of None \<Rightarrow> False | Some s \<Rightarrow> s \<noteq> [])"

subsection \<open>SHA-1 and the UTF-8 encoding (\<^verbatim>\<open>hashlib.sha1(...).hexdigest()\<close>)\<close>

text \<open>
  The library function the identifier is computed with, after FIPS 180-4. Words are
  \<^typ>\<open>32 word\<close>; the masks \<open>AND 0xFFFFFFFF\<close> are the identity on that type and keep
  evaluated numerals below \<open>2 ^ 32\<close>.
\<close>

type_synonym byte = "8 word"
type_synonym u32 = "32 word"

text \<open>\<^verbatim>\<open>base.encode("utf-8", errors="ignore")\<close>: one byte below 128, two bytes from 128 to
  255. Only lone surrogates are ever ignored, and no \<^typ>\<open>char\<close> is one.\<close>

definition utf8_encode :: "string \<Rightarrow> byte list" where
  "utf8_encode s = concat (map (\<lambda>c. let n = (of_char c :: nat) in
       if n < 128 then [of_nat n] else [of_nat (192 + n div 64), of_nat (128 + n mod 64)]) s)"

definition sha1_pad :: "byte list \<Rightarrow> byte list" where
  "sha1_pad m = m @ [0x80] @ replicate ((64 - (length m + 9) mod 64) mod 64) 0
     @ map (\<lambda>i. ucast (drop_bit (8 * (7 - i)) (8 * word_of_nat (length m) :: 64 word))) [0..<8]"

fun be_words :: "byte list \<Rightarrow> u32 list" where
  "be_words (a # b # c # d # bs) =
     (push_bit 24 (ucast a) OR push_bit 16 (ucast b) OR push_bit 8 (ucast c) OR ucast d) # be_words bs"
| "be_words _ = []"

definition rotl :: "nat \<Rightarrow> u32 \<Rightarrow> u32" where
  "rotl n w = (push_bit n w OR drop_bit (32 - n) w) AND 0xFFFFFFFF"

type_synonym sha1_state = "u32 \<times> u32 \<times> u32 \<times> u32 \<times> u32"

definition sha1_f :: "nat \<Rightarrow> u32 \<Rightarrow> u32 \<Rightarrow> u32 \<Rightarrow> u32" where
  "sha1_f t b c d =
     (if t < 20 then (b AND c) OR (NOT b AND d)
      else if t < 40 then b XOR c XOR d
      else if t < 60 then (b AND c) OR (b AND d) OR (c AND d)
      else b XOR c XOR d)"

definition sha1_k :: "nat \<Rightarrow> u32" where
  "sha1_k t = (if t < 20 then 0x5A827999 else if t < 40 then 0x6ED9EBA1
               else if t < 60 then 0x8F1BBCDC else 0xCA62C1D6)"

definition sha1_round :: "nat \<Rightarrow> u32 \<Rightarrow> sha1_state \<Rightarrow> sha1_state" where
  "sha1_round t w s = (case s of (a, b, c, d, e) \<Rightarrow>
     ((rotl 5 a + sha1_f t b c d + e + sha1_k t + w) AND 0xFFFFFFFF, a, rotl 30 b, c, d))"

text \<open>The message schedule as a window of sixteen words: the head is \<open>W\<^sub>t\<close>, and the
  word entering at the end is \<open>W\<^sub>t\<^sub>+\<^sub>1\<^sub>6 = rotl 1 (W\<^sub>t\<^sub>+\<^sub>1\<^sub>3 XOR W\<^sub>t\<^sub>+\<^sub>8 XOR W\<^sub>t\<^sub>+\<^sub>2 XOR W\<^sub>t)\<close>.\<close>

definition next_window :: "u32 list \<Rightarrow> u32 list" where
  "next_window ws = tl ws @ [rotl 1 (ws ! 13 XOR ws ! 8 XOR ws ! 2 XOR ws ! 0)]"

fun sha1_rounds :: "nat list \<Rightarrow> u32 list \<Rightarrow> sha1_state \<Rightarrow> sha1_state" where
  "sha1_rounds [] ws s = s"
| "sha1_rounds (t # ts) ws s = sha1_rounds ts (next_window ws) (sha1_round t (ws ! 0) s)"

definition sha1_block :: "sha1_state \<Rightarrow> u32 list \<Rightarrow> sha1_state" where
  "sha1_block h ws = (case h of (h0, h1, h2, h3, h4) \<Rightarrow>
     (case sha1_rounds [0..<80] ws h of (a, b, c, d, e) \<Rightarrow>
        ((h0 + a) AND 0xFFFFFFFF, (h1 + b) AND 0xFFFFFFFF, (h2 + c) AND 0xFFFFFFFF,
         (h3 + d) AND 0xFFFFFFFF, (h4 + e) AND 0xFFFFFFFF)))"

fun chunks16 :: "nat \<Rightarrow> u32 list \<Rightarrow> u32 list list" where
  "chunks16 0 ws = []"
| "chunks16 (Suc n) ws = take 16 ws # chunks16 n (drop 16 ws)"

definition sha1 :: "byte list \<Rightarrow> u32 list" where
  "sha1 m = (let ws = be_words (sha1_pad m) in
     case foldl sha1_block (0x67452301, 0xEFCDAB89, 0x98BADCFE, 0x10325476, 0xC3D2E1F0)
            (chunks16 (length ws div 16) ws)
     of (a, b, c, d, e) \<Rightarrow> [a, b, c, d, e])"

definition hex_digit :: "nat \<Rightarrow> char" where
  "hex_digit n = ''0123456789abcdef'' ! n"

definition hex32 :: "u32 \<Rightarrow> string" where
  "hex32 w = map (\<lambda>i. hex_digit (unat (drop_bit (4 * (7 - i)) w AND 15))) [0..<8]"

definition hexdigest :: "u32 list \<Rightarrow> string" where
  "hexdigest ws = concat (map hex32 ws)"

definition sha1_hex :: "string \<Rightarrow> string" where
  "sha1_hex base = hexdigest (sha1 (utf8_encode base))"

subsection \<open>Entries and their identifier (\<^verbatim>\<open>uid_for\<close>)\<close>

text \<open>An entry as the feed parser hands it over: each of the five fields the program
  looks at is absent or a string.\<close>

record entry =
  e_id :: "string option"
  e_link :: "string option"
  e_title :: "string option"
  e_published :: "string option"
  e_updated :: "string option"

text \<open>
  \<^verbatim>\<open>entry.get("updated")\<close>. The entries of the feed parser answer a lookup of
  \<^verbatim>\<open>updated\<close> with the value of \<^verbatim>\<open>published\<close> when they have no \<^verbatim>\<open>updated\<close> of their own
  and have a \<^verbatim>\<open>published\<close>; the other four keys are looked up as they are.
\<close>

definition entry_get_updated :: "entry \<Rightarrow> string option" where
  "entry_get_updated entry =
     (case e_updated entry of None \<Rightarrow> e_published entry | Some u \<Rightarrow> Some u)"

text \<open>The local variable \<^verbatim>\<open>base\<close> of \<^verbatim>\<open>uid_for\<close>.\<close>

definition uid_base :: "entry \<Rightarrow> string" where
  "uid_base entry =
     (if present (e_id entry) then or_empty (e_id entry)
      else if present (e_link entry) then or_empty (e_link entry)
      else or_empty (e_title entry) @ or_empty (e_published entry)
             @ or_empty (entry_get_updated entry))"

definition uid_for :: "entry \<Rightarrow> string" where
  "uid_for entry = sha1_hex (uid_base entry)"

subsection \<open>The keyword filter (\<^verbatim>\<open>matches_keywords\<close>)\<close>

definition matches_keywords :: "string list \<Rightarrow> string \<Rightarrow> bool" where
  "matches_keywords keywords title =
     (if keywords = [] then True
      else (let t = lower title in list_ex (\<lambda>k. str_in (lower k) t) keywords))"

subsection \<open>The environment and the world\<close>

text \<open>What \<^verbatim>\<open>feedparser.parse(url)\<close> returns, as far as the program reads it.\<close>

record parsed =
  bozo :: bool
  entries :: "entry list"

text \<open>
  The module's configuration (\<^verbatim>\<open>FEEDS\<close>, \<^verbatim>\<open>KEYWORDS\<close>, \<^verbatim>\<open>DISCORD_WEBHOOK\<close>) and its two
  collaborators: the feed parser, and whether the \<open>i\<close>-th call of
  \<^verbatim>\<open>requests.post(...).raise_for_status()\<close> made in this world goes through.
\<close>

record env =
  FEEDS :: "(string \<times> string) list"
  KEYWORDS :: "string list"
  DISCORD_WEBHOOK :: "string option"
  feedparser_parse :: "string \<Rightarrow> parsed"
  post_succeeds :: "nat \<Rightarrow> bool"

text \<open>The values the source file gives to \<^verbatim>\<open>FEEDS\<close> and \<^verbatim>\<open>KEYWORDS\<close>.\<close>

definition source_FEEDS :: "(string \<times> string) list" where
  "source_FEEDS =
     [(''CoinDesk'', ''https://www.coindesk.com/arc/outboundfeeds/rss/''),
      (''Nasdaq - Cryptocurrencies'', ''https://www.nasdaq.com/feed/rssoutbound?category=Cryptocurrencies''),
      (''CryptoNews'', ''https://cryptonews.com/news/feed/''),
      (''Coinpedia'', ''https://coinpedia.org/feed/''),
      (''Real-time Headlines'', ''https://feeds.content.dowjones.io/public/rss/mw_realtimeheadlines''),
      (''Market Pulse'', ''https://feeds.content.dowjones.io/public/rss/mw_marketpulse''),
      (''Nasdaq - Stocks'', ''https://www.nasdaq.com/feed/rssoutbound?category=Stocks''),
      (''Bloomberg'', ''https://feeds.bloomberg.com/markets/news.rss''),
      (''Yahoo! Finance'', ''https://finance.yahoo.com/news/rss''),
      (''Investing'', ''https://www.investing.com/rss/news.rss'')]"

definition source_KEYWORDS :: "string list" where
  "source_KEYWORDS = []"

datatype error = AssertionError | JSONDecodeError | DeliveryFailed

text \<open>What the program does to the outside, in the order it does it: a call of the feed
  parser, a request that went through, a request that raised, a pause of
  \<^verbatim>\<open>POST_DELAY_SECONDS\<close>, the printed lines, and the writing of the state file.\<close>

datatype event =
    Fetched string
  | Posted string
  | PostFailed string
  | Slept
  | Warned string string
  | Errored string
  | Saved "(string \<times> string list) list"
  | Done nat

record world =
  posts_made :: nat
  trace :: "event list"

definition emit :: "event \<Rightarrow> world \<Rightarrow> world" where
  "emit ev w = w\<lparr>trace := trace w @ [ev]\<rparr>"

subsection \<open>The state and its file (\<^verbatim>\<open>load_state\<close>, \<^verbatim>\<open>save_state\<close>)\<close>

text \<open>
  The state is the dictionary \<^verbatim>\<open>{"seen": {url: [uid, ...]}}\<close>; the model keeps the inner
  dictionary, as an association list in insertion order with one pair for each key. The
  lists stored under different keys are different objects (the JSON decoder builds each
  one, and \<^verbatim>\<open>setdefault\<close> adds a new empty one), so a value model loses nothing.

  The state file is missing, or holds something the JSON decoder rejects (an empty or
  partly written file among them), or holds a document of that shape, its members in the
  order they stand in the file.
\<close>

type_synonym state = "(string \<times> string list) list"

datatype state_file = Missing | Unparsable | Json "(string \<times> string list) list"

text \<open>The decoder fills a dictionary member by member: a repeated key keeps its first
  place and its last value.\<close>

definition json_load :: "(string \<times> string list) list \<Rightarrow> state" where
  "json_load members = foldl (\<lambda>d (k, v). AList.update k v d) [] members"

definition load_state :: "state_file \<Rightarrow> error + state" where
  "load_state f = (case f of
       Missing \<Rightarrow> Inr []
     | Unparsable \<Rightarrow> Inl JSONDecodeError
     | Json members \<Rightarrow> Inr (json_load members))"

text \<open>\<^verbatim>\<open>json.dump(state, f, indent=2, sort_keys=True)\<close> writes the members ordered by key.\<close>

definition json_dump :: "state \<Rightarrow> (string \<times> string list) list" where
  "json_dump state = sort_key fst state"

text \<open>\<^verbatim>\<open>save_state\<close> acts on the file twice: \<^verbatim>\<open>open(STATE_FILE, "w")\<close> creates the
  file or cuts it to length zero, then the document is written into it.\<close>

datatype file_op = Open_truncate | Write_document "(string \<times> string list) list"

fun file_step :: "state_file \<Rightarrow> file_op \<Rightarrow> state_file" where
  "file_step f Open_truncate = Unparsable"
| "file_step f (Write_document d) = Json d"

definition save_state_ops :: "state \<Rightarrow> file_op list" where
  "save_state_ops state = [Open_truncate, Write_document (json_dump state)]"

definition save_state :: "state \<Rightarrow> state_file \<Rightarrow> state_file" where
  "save_state state f = foldl file_step f (save_state_ops state)"

text \<open>The file a process leaves behind when it dies after the first \<open>n\<close> file operations
  of \<^verbatim>\<open>save_state\<close>.\<close>

definition save_state_interrupted :: "nat \<Rightarrow> state \<Rightarrow> state_file \<Rightarrow> state_file" where
  "save_state_interrupted n state f = foldl file_step f (take n (save_state_ops state))"

subsection \<open>Posting (\<^verbatim>\<open>post_to_discord\<close>)\<close>

definition message :: "string \<Rightarrow> string \<Rightarrow> string \<Rightarrow> string" where
  "message title url source =
     ''**'' @ title @ ''**'' @ [CHR 0x0A] @ url @ [CHR 0x0A] @ ''_(via '' @ source @ '')_''"

definition post_to_discord ::
  "env \<Rightarrow> string \<Rightarrow> string \<Rightarrow> string \<Rightarrow> world \<Rightarrow> (error + unit) \<times> world" where
  "post_to_discord env title url source w =
     (let content = message title url source;
          w1 = w\<lparr>posts_made := Suc (posts_made w)\<rparr>
      in if post_succeeds env (posts_made w)
         then (Inr (), emit (Posted content) w1)
         else (Inl DeliveryFailed, emit (PostFailed content) w1))"

subsection \<open>One feed (\<^verbatim>\<open>process_feed\<close>)\<close>

text \<open>Lines 81 to 84: append the identifier, then keep the last 500.\<close>

definition remember :: "string list \<Rightarrow> string \<Rightarrow> string list" where
  "remember seen uid = (let seen1 = seen @ [uid] in
     if length seen1 > 500 then drop (length seen1 - 500) seen1 else seen1)"

text \<open>
  The \<^verbatim>\<open>for\<close> loop of lines 69 to 86 over the entries still to come. An exception of
  \<^verbatim>\<open>post_to_discord\<close> leaves the loop at once: the result is the error, without any
  count, and the list \<open>seen\<close> as it was changed in place so far.
\<close>

fun feed_loop ::
  "env \<Rightarrow> string \<Rightarrow> entry list \<Rightarrow> string list \<Rightarrow> nat \<Rightarrow> world
     \<Rightarrow> (error + nat) \<times> string list \<times> world" where
  "feed_loop env name [] seen new_count w = (Inr new_count, seen, w)"
| "feed_loop env name (entry # rest) seen new_count w =
     (let title = strip (or_empty (e_title entry));
          link = strip (or_empty (e_link entry))
      in if title = [] \<or> link = [] then feed_loop env name rest seen new_count w
         else if \<not> matches_keywords (KEYWORDS env) title then feed_loop env name rest seen new_count w
         else let uid = uid_for entry in
           if uid \<in> set seen then feed_loop env name rest seen new_count w
           else (case post_to_discord env title link name w of
                   (Inl e, w1) \<Rightarrow> (Inl e, seen, w1)
                 | (Inr _, w1) \<Rightarrow>
                     feed_loop env name rest (remember seen uid) (new_count + 1) (emit Slept w1)))"

text \<open>\<^verbatim>\<open>state["seen"].setdefault(url, [])\<close>: the list under \<open>url\<close>, after a new empty one
  was put at the end of the dictionary when there was none.\<close>

definition setdefault :: "string \<Rightarrow> state \<Rightarrow> state" where
  "setdefault url state = (case map_of state url of None \<Rightarrow> state @ [(url, [])] | Some _ \<Rightarrow> state)"

definition seen_of :: "state \<Rightarrow> string \<Rightarrow> string list" where
  "seen_of state url = (case map_of state url of None \<Rightarrow> [] | Some seen \<Rightarrow> seen)"

definition process_feed ::
  "env \<Rightarrow> string \<Rightarrow> string \<Rightarrow> state \<Rightarrow> world \<Rightarrow> (error + nat) \<times> state \<times> world" where
  "process_feed env name url state w =
     (let parsed = feedparser_parse env url;
          w1 = emit (Fetched url) w
      in if bozo parsed \<and> entries parsed = [] then (Inr 0, state, emit (Warned name url) w1)
         else
           (let state1 = setdefault url state;
                seen = seen_of state1 url
            in case feed_loop env name (rev (entries parsed)) seen 0 w1 of
                 (r, seen', w2) \<Rightarrow> (r, AList.update url seen' state1, w2)))"

subsection \<open>One run (\<^verbatim>\<open>main\<close>)\<close>

text \<open>The loop of lines 93 to 97: an exception of \<^verbatim>\<open>process_feed\<close> is printed and the
  loop goes on; nothing is added to \<open>totals\<close> for that feed.\<close>

fun run_feeds ::
  "env \<Rightarrow> (string \<times> string) list \<Rightarrow> state \<Rightarrow> nat \<Rightarrow> world \<Rightarrow> nat \<times> state \<times> world" where
  "run_feeds env [] state totals w = (totals, state, w)"
| "run_feeds env ((name, url) # feeds) state totals w =
     (case process_feed env name url state w of
        (Inr n, state1, w1) \<Rightarrow> run_feeds env feeds state1 (totals + n) w1
      | (Inl e, state1, w1) \<Rightarrow> run_feeds env feeds state1 totals (emit (Errored name) w1))"

definition main :: "env \<Rightarrow> state_file \<Rightarrow> world \<Rightarrow> (error + nat) \<times> state_file \<times> world" where
  "main env f w =
     (if \<not> present (DISCORD_WEBHOOK env) then (Inl AssertionError, f, w)
      else case load_state f of
             Inl e \<Rightarrow> (Inl e, f, w)
           | Inr state \<Rightarrow>
               (case run_feeds env (FEEDS env) state 0 w of
                  (totals, state1, w1) \<Rightarrow>
                    (Inr totals, save_state state1 f,
                     emit (Done totals) (emit (Saved (json_dump state1)) w1))))"

subsection \<open>Recording an identifier\<close>

text \<open>One record operation on a feed's list, as the loop performs it: the test of line 77,
  then lines 81 to 84. An identifier that is in the list leaves it as it is.\<close>

definition record_id :: "string list \<Rightarrow> string \<Rightarrow> string list" where
  "record_id seen uid = (if uid \<in> set seen then seen else remember seen uid)"


subsection \<open>Concrete entries\<close>

text \<open>Three entries whose identifier has the same basis \<^verbatim>\<open>abc\<close>: from the \<^verbatim>\<open>id\<close>, from
  the link (the \<^verbatim>\<open>id\<close> being empty), and from title, published and updated.\<close>

definition entry_abc :: entry where
  "entry_abc = \<lparr>e_id = Some ''abc'', e_link = Some ''http://e/1'', e_title = Some ''X'',
                e_published = None, e_updated = None\<rparr>"

definition entry_link_abc :: entry where
  "entry_link_abc = \<lparr>e_id = Some '''', e_link = Some ''abc'', e_title = Some ''Y'',
                e_published = None, e_updated = None\<rparr>"

definition entry_title_abc :: entry where
  "entry_title_abc = \<lparr>e_id = None, e_link = None, e_title = Some ''a'',
                e_published = Some ''b'', e_updated = Some ''c''\<rparr>"

text \<open>Entries with neither \<^verbatim>\<open>id\<close> nor link: one with a title only, one with a title and
  \<^verbatim>\<open>published\<close> but no \<^verbatim>\<open>updated\<close>, and one with none of the five fields.\<close>

definition entry_title_only :: entry where
  "entry_title_only = \<lparr>e_id = None, e_link = None, e_title = Some ''abc'',
                e_published = None, e_updated = None\<rparr>"

definition entry_undated :: entry where
  "entry_undated = \<lparr>e_id = None, e_link = None, e_title = Some ''a'',
                e_published = Some ''b'', e_updated = None\<rparr>"

definition entry_blank :: entry where
  "entry_blank = \<lparr>e_id = None, e_link = None, e_title = None,
                e_published = None, e_updated = None\<rparr>"

subsection \<open>What a call delivers\<close>

text \<open>Steps a and b of the loop body: the entry has a title and a link after trimming, and
  the trimmed title passes the keyword filter.\<close>

definition deliverable :: "string list \<Rightarrow> entry \<Rightarrow> bool" where
  "deliverable keywords entry =
     (strip (or_empty (e_title entry)) \<noteq> [] \<and> strip (or_empty (e_link entry)) \<noteq> []
      \<and> matches_keywords keywords (strip (or_empty (e_title entry))))"

text \<open>An entry is eligible with respect to a feed's list of identifiers when, moreover, its
  identifier is not in that list.\<close>

definition eligible :: "string list \<Rightarrow> string list \<Rightarrow> entry \<Rightarrow> bool" where
  "eligible keywords seen entry = (deliverable keywords entry \<and> uid_for entry \<notin> set seen)"

text \<open>
  The entries a call reaches for delivery when no request fails, as the loop of lines 69 to
  86 finds them: walk the entries in the given order, keeping the feed's list as the loop
  does; an entry that is eligible with respect to the list as it stands when the entry is
  reached is delivered, and its identifier is recorded on the list; any other entry is
  skipped. The eligible entries of a call are those the predicate above accepts for the list
  the call starts with; the two need not be the same entries.
\<close>

fun deliveries :: "string list \<Rightarrow> string list \<Rightarrow> entry list \<Rightarrow> entry list" where
  "deliveries keywords seen [] = []"
| "deliveries keywords seen (entry # rest) =
     (if eligible keywords seen entry
      then entry # deliveries keywords (record_id seen (uid_for entry)) rest
      else deliveries keywords seen rest)"

text \<open>The content posted for an entry of the feed called \<open>name\<close>.\<close>

definition announcement :: "string \<Rightarrow> entry \<Rightarrow> string" where
  "announcement name entry =
     message (strip (or_empty (e_title entry))) (strip (or_empty (e_link entry))) name"

text \<open>Reading a trace: the contents posted, the number of pauses, the feeds fetched, the
  documents written, and the events a computation added to the trace.\<close>

fun posted :: "event list \<Rightarrow> string list" where
  "posted [] = []"
| "posted (Posted c # evs) = c # posted evs"
| "posted (ev # evs) = posted evs"

fun pauses :: "event list \<Rightarrow> nat" where
  "pauses [] = 0"
| "pauses (Slept # evs) = Suc (pauses evs)"
| "pauses (ev # evs) = pauses evs"

fun fetched :: "event list \<Rightarrow> string list" where
  "fetched [] = []"
| "fetched (Fetched url # evs) = url # fetched evs"
| "fetched (ev # evs) = fetched evs"

fun saved :: "event list \<Rightarrow> (string \<times> string list) list list" where
  "saved [] = []"
| "saved (Saved d # evs) = d # saved evs"
| "saved (ev # evs) = saved evs"

definition emitted :: "world \<Rightarrow> world \<Rightarrow> event list" where
  "emitted w w' = drop (length (trace w)) (trace w')"

text \<open>The events of a feed's loop when \<open>cs\<close> are the contents posted: each followed by a pause.\<close>

definition post_events :: "string list \<Rightarrow> event list" where
  "post_events cs = concat (map (\<lambda>c. [Posted c, Slept]) cs)"

text \<open>Three more entries, \<open>new1\<close> the oldest, and an old one.\<close>

definition new1 :: entry where
  "new1 = \<lparr>e_id = Some ''new1'', e_link = Some ''http://e/n1'', e_title = Some ''One'',
           e_published = None, e_updated = None\<rparr>"

definition new2 :: entry where
  "new2 = \<lparr>e_id = Some ''new2'', e_link = Some ''http://e/n2'', e_title = Some '' Two '',
           e_published = None, e_updated = None\<rparr>"

definition new3 :: entry where
  "new3 = \<lparr>e_id = Some ''new3'', e_link = Some ''http://e/n3'', e_title = Some ''Three'',
           e_published = None, e_updated = None\<rparr>"

definition old_entry :: entry where
  "old_entry = \<lparr>e_id = Some ''old'', e_link = Some ''http://e/old'', e_title = Some ''Old'',
           e_published = None, e_updated = None\<rparr>"

text \<open>A world in which nothing has happened yet, and environments with one feed whose
  source returns the given entries, every request going through but the ones listed.\<close>

definition world0 :: world where
  "world0 = \<lparr>posts_made = 0, trace = []\<rparr>"

definition one_feed_env :: "entry list \<Rightarrow> nat list \<Rightarrow> env" where
  "one_feed_env es failing =
     \<lparr>FEEDS = [(''Feed'', ''http://feed'')], KEYWORDS = source_KEYWORDS,
      DISCORD_WEBHOOK = Some ''https://discord/webhook'',
      feedparser_parse = (\<lambda>url. \<lparr>bozo = False, entries = es\<rparr>),
      post_succeeds = (\<lambda>i. i \<notin> set failing)\<rparr>"

subsection \<open>The outcome of each feed of a run\<close>

text \<open>What the successive calls of \<^verbatim>\<open>process_feed\<close> in the loop of \<^verbatim>\<open>main\<close> return or
  raise, and what a call contributes to \<open>totals\<close>.\<close>

fun feed_outcomes ::
  "env \<Rightarrow> (string \<times> string) list \<Rightarrow> state \<Rightarrow> world \<Rightarrow> (error + nat) list" where
  "feed_outcomes env [] state w = []"
| "feed_outcomes env ((name, url) # feeds) state w =
     (case process_feed env name url state w of
        (Inr n, state1, w1) \<Rightarrow> Inr n # feed_outcomes env feeds state1 w1
      | (Inl e, state1, w1) \<Rightarrow> Inl e # feed_outcomes env feeds state1 (emit (Errored name) w1))"

fun counted :: "error + nat \<Rightarrow> nat" where
  "counted (Inr n) = n"
| "counted (Inl e) = 0"

fun errors_printed :: "event list \<Rightarrow> string list" where
  "errors_printed [] = []"
| "errors_printed (Errored name # evs) = name # errors_printed evs"
| "errors_printed (ev # evs) = errors_printed evs"

text \<open>The names of the feeds whose call raised.\<close>

fun failed_feeds :: "(string \<times> string) list \<Rightarrow> (error + nat) list \<Rightarrow> string list" where
  "failed_feeds ((name, url) # feeds) (Inl e # rs) = name # failed_feeds feeds rs"
| "failed_feeds ((name, url) # feeds) (Inr n # rs) = failed_feeds feeds rs"
| "failed_feeds feeds rs = []"

text \<open>An environment with two feeds, the first returning \<open>new1\<close> and the second \<open>new2\<close>, in
  which the first request fails and all later ones go through.\<close>

definition two_feed_env :: env where
  "two_feed_env =
     \<lparr>FEEDS = [(''A'', ''http://a''), (''B'', ''http://b'')], KEYWORDS = source_KEYWORDS,
      DISCORD_WEBHOOK = Some ''https://discord/webhook'',
      feedparser_parse = (\<lambda>url. \<lparr>bozo = False, entries = (if url = ''http://a'' then [new1] else [new2])\<rparr>),
      post_succeeds = (\<lambda>i. i \<noteq> 0)\<rparr>"

subsection \<open>Requests, and lists that keep a feed's identifiers\<close>

text \<open>Of \<open>n\<close> requests made one after the other, \<open>a\<close> requests having been made before, the
  number that go through before the first one fails.\<close>

fun successes :: "env \<Rightarrow> nat \<Rightarrow> nat \<Rightarrow> nat" where
  "successes env a 0 = 0"
| "successes env a (Suc n) =
     (if post_succeeds env a then Suc (successes env (Suc a) n) else 0)"


text \<open>
  The identifiers of a list are known when their entries are reached: walking the entries
  \<open>es\<close> in order and recording each eligible one, every deliverable entry whose identifier is
  in the list \<open>seen\<close> at the start still has it in the list when the walk comes to the
  entry; the bound has not pushed it out before.
\<close>

definition known_when_reached :: "string list \<Rightarrow> string list \<Rightarrow> entry list \<Rightarrow> bool" where
  "known_when_reached keywords seen es =
     (\<forall>n < length es. deliverable keywords (es ! n) \<and> uid_for (es ! n) \<in> set seen \<longrightarrow>
        uid_for (es ! n)
          \<in> set (foldl record_id seen
                 (map uid_for (filter (eligible keywords seen) (take n es)))))"


text \<open>A list of identifiers at its bound: the identifier of \<open>old_entry\<close>, the oldest one,
  and 499 more, none of them the identifier of a concrete entry above.\<close>

definition fillers :: "string list" where
  "fillers = map (\<lambda>i. hexdigest (replicate 5 (word_of_nat i))) [0..<499]"

definition full_seen :: "string list" where
  "full_seen = uid_for old_entry # fillers"

section \<open>Properties\<close>

subsection \<open>The bounded list of identifiers\<close>


lemma remember_full: "length seen = 500 \<Longrightarrow> remember seen uid = tl seen @ [uid]"
  by (cases seen) (simp_all add: remember_def)


lemma set_remember: "set (remember seen uid) \<subseteq> insert uid (set seen)"
  by (auto simp: remember_def Let_def dest: in_set_dropD)







subsection \<open>Evaluating SHA-1\<close>

lemma upt_0_8: "[0..<8] = 0 # 1 # [2..<8]"
  by (simp add: upt_conv_Cons)

lemma upt_0_80: "[0..<80] = 0 # 1 # [2..<80]"
  by (simp add: upt_conv_Cons)

lemma replicate_numeral: "replicate (numeral k) x = x # replicate (pred_numeral k) x"
  by (simp add: numeral_eq_Suc)

lemmas sha1_eval = sha1_hex_def sha1_def hexdigest_def hex32_def hex_digit_def sha1_pad_def
  utf8_encode_def sha1_block_def sha1_round_def next_window_def rotl_def sha1_f_def sha1_k_def
  upt_0_8 upt_0_80 replicate_numeral Let_def

lemma sha1_hex_abc: "sha1_hex ''abc'' = ''a9993e364706816aba3e25717850c26c9cd0d89d''"
  by (simp add: sha1_eval)

subsection \<open>The identifier of an entry\<close>

lemma hex_digit_in: "n < 16 \<Longrightarrow> hex_digit n \<in> set ''0123456789abcdef''"
  unfolding hex_digit_def by (rule nth_mem) simp

lemma nibble_less: "unat (w AND (15 :: u32)) < 16"
proof -
  have "unat (w AND 15) \<le> unat (15 :: u32)"
    by (rule word_and_le1 [THEN word_le_nat_alt [THEN iffD1]])
  then show ?thesis by simp
qed

lemma length_hex32: "length (hex32 w) = 8"
  by (simp add: hex32_def)

lemma set_hex32: "set (hex32 w) \<subseteq> set ''0123456789abcdef''"
  unfolding hex32_def using hex_digit_in [OF nibble_less] by auto

lemma sha1_five: "\<exists>a b c d e. sha1 m = [a, b, c, d, e]"
  by (simp add: sha1_def Let_def split: prod.splits)

lemma length_sha1_hex: "length (sha1_hex base) = 40"
proof -
  obtain a b c d e where "sha1 (utf8_encode base) = [a, b, c, d, e]"
    using sha1_five by blast
  then show ?thesis by (simp add: sha1_hex_def hexdigest_def length_hex32)
qed

lemma set_sha1_hex: "set (sha1_hex base) \<subseteq> set ''0123456789abcdef''"
  unfolding sha1_hex_def hexdigest_def using set_hex32 by fastforce

subsection \<open>Traces\<close>

lemma posted_append: "posted (xs @ ys) = posted xs @ posted ys"
  by (induction xs rule: posted.induct) simp_all

lemma pauses_append: "pauses (xs @ ys) = pauses xs + pauses ys"
  by (induction xs rule: pauses.induct) simp_all

lemma fetched_append: "fetched (xs @ ys) = fetched xs @ fetched ys"
  by (induction xs rule: fetched.induct) simp_all

lemma saved_append: "saved (xs @ ys) = saved xs @ saved ys"
  by (induction xs rule: saved.induct) simp_all

lemma post_events_simps:
  "post_events [] = []" "post_events (c # cs) = Posted c # Slept # post_events cs"
  by (simp_all add: post_events_def)

lemma post_events_append: "post_events (xs @ ys) = post_events xs @ post_events ys"
  by (simp add: post_events_def)

lemma posted_post_events: "posted (post_events cs) = cs"
  by (induction cs) (simp_all add: post_events_simps)

lemma pauses_post_events: "pauses (post_events cs) = length cs"
  by (induction cs) (simp_all add: post_events_simps)

lemma fetched_post_events: "fetched (post_events cs) = []"
  by (induction cs) (simp_all add: post_events_simps)

lemma saved_post_events: "saved (post_events cs) = []"
  by (induction cs) (simp_all add: post_events_simps)

subsection \<open>The loop over the entries of a feed\<close>

lemma feed_loop_skip:
  "\<not> eligible (KEYWORDS env) seen entry \<Longrightarrow>
   feed_loop env name (entry # rest) seen n w = feed_loop env name rest seen n w"
  by (auto simp: eligible_def deliverable_def Let_def)

lemma feed_loop_post:
  "eligible (KEYWORDS env) seen entry \<Longrightarrow> post_succeeds env (posts_made w) \<Longrightarrow>
   feed_loop env name (entry # rest) seen n w =
     feed_loop env name rest (record_id seen (uid_for entry)) (Suc n)
       (w\<lparr>posts_made := Suc (posts_made w),
          trace := trace w @ [Posted (announcement name entry), Slept]\<rparr>)"
  by (simp add: eligible_def deliverable_def Let_def post_to_discord_def emit_def
      announcement_def record_id_def)

lemma feed_loop_fail:
  "eligible (KEYWORDS env) seen entry \<Longrightarrow> \<not> post_succeeds env (posts_made w) \<Longrightarrow>
   feed_loop env name (entry # rest) seen n w =
     (Inl DeliveryFailed, seen,
      w\<lparr>posts_made := Suc (posts_made w),
        trace := trace w @ [PostFailed (announcement name entry)]\<rparr>)"
  by (simp add: eligible_def deliverable_def Let_def post_to_discord_def emit_def
      announcement_def)

lemma feed_loop_all_delivered:
  "\<forall>i < length (deliveries (KEYWORDS env) seen es). post_succeeds env (posts_made w + i) \<Longrightarrow>
   feed_loop env name es seen n w =
     (Inr (n + length (deliveries (KEYWORDS env) seen es)),
      foldl record_id seen (map uid_for (deliveries (KEYWORDS env) seen es)),
      w\<lparr>posts_made := posts_made w + length (deliveries (KEYWORDS env) seen es),
        trace := trace w @ post_events (map (announcement name) (deliveries (KEYWORDS env) seen es))\<rparr>)"
proof (induction es arbitrary: seen n w)
  case Nil
  then show ?case by (simp add: post_events_simps)
next
  case (Cons entry rest)
  show ?case
  proof (cases "eligible (KEYWORDS env) seen entry")
    case False
    with Cons show ?thesis by (simp add: feed_loop_skip del: feed_loop.simps)
  next
    case True
    let ?w = "w\<lparr>posts_made := Suc (posts_made w),
          trace := trace w @ [Posted (announcement name entry), Slept]\<rparr>"
    let ?seen = "record_id seen (uid_for entry)"
    have ok: "post_succeeds env (posts_made w)"
      using Cons.prems True by auto
    have "\<forall>i < length (deliveries (KEYWORDS env) ?seen rest). post_succeeds env (posts_made ?w + i)"
      using Cons.prems True by auto
    from Cons.IH [OF this, of "Suc n"] True ok show ?thesis
      by (simp add: feed_loop_post post_events_simps del: feed_loop.simps)
  qed
qed

lemma feed_loop_fails_at:
  "k < length (deliveries (KEYWORDS env) seen es) \<Longrightarrow>
   \<forall>i < k. post_succeeds env (posts_made w + i) \<Longrightarrow>
   \<not> post_succeeds env (posts_made w + k) \<Longrightarrow>
   feed_loop env name es seen n w =
     (Inl DeliveryFailed,
      foldl record_id seen (map uid_for (take k (deliveries (KEYWORDS env) seen es))),
      w\<lparr>posts_made := Suc (posts_made w + k),
        trace := trace w
          @ post_events (map (announcement name) (take k (deliveries (KEYWORDS env) seen es)))
          @ [PostFailed (announcement name (deliveries (KEYWORDS env) seen es ! k))]\<rparr>)"
proof (induction es arbitrary: seen n w k)
  case Nil
  then show ?case by simp
next
  case (Cons entry rest)
  show ?case
  proof (cases "eligible (KEYWORDS env) seen entry")
    case False
    with Cons show ?thesis by (simp add: feed_loop_skip del: feed_loop.simps)
  next
    case True
    show ?thesis
    proof (cases k)
      case 0
      with Cons.prems True show ?thesis
        by (simp add: feed_loop_fail post_events_simps del: feed_loop.simps)
    next
      case (Suc j)
      let ?w = "w\<lparr>posts_made := Suc (posts_made w),
            trace := trace w @ [Posted (announcement name entry), Slept]\<rparr>"
      let ?seen = "record_id seen (uid_for entry)"
      have ok: "post_succeeds env (posts_made w)"
        using Cons.prems Suc by auto
      have 1: "j < length (deliveries (KEYWORDS env) ?seen rest)"
        using Cons.prems True Suc by simp
      have 2: "\<forall>i < j. post_succeeds env (posts_made ?w + i)"
        using Cons.prems(2) Suc by auto
      have 3: "\<not> post_succeeds env (posts_made ?w + j)"
        using Cons.prems(3) Suc by simp
      from Cons.IH [OF 1 2 3, of "Suc n"] True ok Suc show ?thesis
        by (simp add: feed_loop_post post_events_simps del: feed_loop.simps)
    qed
  qed
qed

declare feed_loop.simps [simp del]

subsection \<open>One feed\<close>

lemma seen_of_setdefault: "seen_of (setdefault url state) url = seen_of state url"
  by (cases "map_of state url") (simp_all add: seen_of_def setdefault_def map_add_def)

lemma update_append_new:
  "map_of state url = None \<Longrightarrow> AList.update url v (state @ [(url, v0)]) = AList.update url v state"
  by (induction state) (auto split: if_splits)

lemma update_setdefault: "AList.update url v (setdefault url state) = AList.update url v state"
  by (simp add: setdefault_def update_append_new split: option.splits)

lemma process_feed_unavailable:
  "bozo (feedparser_parse env url) \<Longrightarrow> entries (feedparser_parse env url) = [] \<Longrightarrow>
   process_feed env name url state w =
     (Inr 0, state, w\<lparr>trace := trace w @ [Fetched url, Warned name url]\<rparr>)"
  by (simp add: process_feed_def emit_def)

lemma process_feed_loop:
  "\<not> (bozo (feedparser_parse env url) \<and> entries (feedparser_parse env url) = []) \<Longrightarrow>
   process_feed env name url state w =
     (case feed_loop env name (rev (entries (feedparser_parse env url))) (seen_of state url) 0
             (w\<lparr>trace := trace w @ [Fetched url]\<rparr>) of
        (r, seen', w2) \<Rightarrow> (r, AList.update url seen' state, w2))"
  by (auto simp: process_feed_def Let_def emit_def seen_of_setdefault update_setdefault
      split: prod.splits)

lemma process_feed_all_delivered:
  assumes "\<not> (bozo (feedparser_parse env url) \<and> entries (feedparser_parse env url) = [])"
    and "D = deliveries (KEYWORDS env) (seen_of state url) (rev (entries (feedparser_parse env url)))"
    and "\<forall>i < length D. post_succeeds env (posts_made w + i)"
  shows "process_feed env name url state w =
     (Inr (length D),
      AList.update url (foldl record_id (seen_of state url) (map uid_for D)) state,
      w\<lparr>posts_made := posts_made w + length D,
        trace := trace w @ Fetched url # post_events (map (announcement name) D)\<rparr>)"
  using assms(3) unfolding process_feed_loop [OF assms(1)] assms(2)
  by (subst feed_loop_all_delivered) simp_all

lemma process_feed_fails_at:
  assumes "D = deliveries (KEYWORDS env) (seen_of state url) (rev (entries (feedparser_parse env url)))"
    and "k < length D"
    and "\<forall>i < k. post_succeeds env (posts_made w + i)"
    and "\<not> post_succeeds env (posts_made w + k)"
  shows "process_feed env name url state w =
     (Inl DeliveryFailed,
      AList.update url (foldl record_id (seen_of state url) (map uid_for (take k D))) state,
      w\<lparr>posts_made := Suc (posts_made w + k),
        trace := trace w @ Fetched url # post_events (map (announcement name) (take k D))
                   @ [PostFailed (announcement name (D ! k))]\<rparr>)"
proof -
  have ne: "\<not> (bozo (feedparser_parse env url) \<and> entries (feedparser_parse env url) = [])"
    using assms(1,2) by auto
  show ?thesis
    using assms(2-4) unfolding process_feed_loop [OF ne] assms(1)
    by (subst feed_loop_fails_at [where k = k]) simp_all
qed

subsection \<open>The concrete entries and environments\<close>

lemma uid_for_new1: "uid_for new1 = ''e67a40509ebbff2dda3af742d2bf838fb49e5c61''"
  by (simp add: uid_for_def uid_base_def present_def or_empty_def new1_def sha1_eval)

lemma uid_for_new2: "uid_for new2 = ''86010fa20d57c43359323070dbaaddaf0fe8f84a''"
  by (simp add: uid_for_def uid_base_def present_def or_empty_def new2_def sha1_eval)

lemma uid_for_new3: "uid_for new3 = ''967b357b68e3537460ca35549bd009e5a50cc418''"
  by (simp add: uid_for_def uid_base_def present_def or_empty_def new3_def sha1_eval)

lemma uid_for_old_entry: "uid_for old_entry = ''c00dbbc9dadfbe1e232e93a729dd4752fade0abf''"
  by (simp add: uid_for_def uid_base_def present_def or_empty_def old_entry_def sha1_eval)

lemmas uid_eval = uid_for_new1 uid_for_new2 uid_for_new3 uid_for_old_entry

lemma one_feed_env_simps:
  "FEEDS (one_feed_env es failing) = [(''Feed'', ''http://feed'')]"
  "KEYWORDS (one_feed_env es failing) = []"
  "DISCORD_WEBHOOK (one_feed_env es failing) = Some ''https://discord/webhook''"
  "feedparser_parse (one_feed_env es failing) url = \<lparr>bozo = False, entries = es\<rparr>"
  "post_succeeds (one_feed_env es failing) i = (i \<notin> set failing)"
  by (simp_all add: one_feed_env_def source_KEYWORDS_def)

lemma deliverable_examples:
  "deliverable [] new1" "deliverable [] new2" "deliverable [] new3" "deliverable [] old_entry"
  "deliverable [] entry_abc"
  by (simp_all add: deliverable_def matches_keywords_def strip_def is_space_def or_empty_def
      new1_def new2_def new3_def old_entry_def entry_abc_def)

lemma announcement_examples:
  "announcement ''Feed'' new1 = ''**One**'' @ [CHR 0x0A] @ ''http://e/n1'' @ [CHR 0x0A] @ ''_(via Feed)_''"
  "announcement ''Feed'' new2 = ''**Two**'' @ [CHR 0x0A] @ ''http://e/n2'' @ [CHR 0x0A] @ ''_(via Feed)_''"
  "announcement ''Feed'' new3 = ''**Three**'' @ [CHR 0x0A] @ ''http://e/n3'' @ [CHR 0x0A] @ ''_(via Feed)_''"
  by (simp_all add: announcement_def message_def strip_def is_space_def or_empty_def
      new1_def new2_def new3_def)

subsection \<open>The events of a call\<close>

lemma emitted_append: "trace w' = trace w @ evs \<Longrightarrow> emitted w w' = evs"
  by (simp add: emitted_def)

lemma feed_loop_shape:
  "\<exists>cs tail. trace (snd (snd (feed_loop env name es seen n w))) = trace w @ post_events cs @ tail
     \<and> (tail = [] \<or> (\<exists>c. tail = [PostFailed c]))"
proof (cases "\<forall>i < length (deliveries (KEYWORDS env) seen es). post_succeeds env (posts_made w + i)")
  case True
  from feed_loop_all_delivered [OF this, of name n] show ?thesis
    by (intro exI [of _ "map (announcement name) (deliveries (KEYWORDS env) seen es)"] exI [of _ "[]"]) simp
next
  case False
  define P where "P i \<longleftrightarrow> i < length (deliveries (KEYWORDS env) seen es) \<and> \<not> post_succeeds env (posts_made w + i)" for i
  from False have ex: "\<exists>i. P i" by (auto simp: P_def)
  define k where "k = (LEAST i. P i)"
  have Pk: "P k" unfolding k_def using ex by (rule LeastI_ex)
  have least: "\<not> P i" if "i < k" for i using that not_less_Least unfolding k_def by blast
  have 1: "k < length (deliveries (KEYWORDS env) seen es)" using Pk by (simp add: P_def)
  have 3: "\<not> post_succeeds env (posts_made w + k)" using Pk by (simp add: P_def)
  have 2: "\<forall>i < k. post_succeeds env (posts_made w + i)"
  proof (intro allI impI)
    fix i assume "i < k"
    with least [of i] 1 show "post_succeeds env (posts_made w + i)" by (simp add: P_def)
  qed
  from feed_loop_fails_at [OF 1 2 3, of name n] show ?thesis
    by (intro exI [of _ "map (announcement name) (take k (deliveries (KEYWORDS env) seen es))"]
        exI [of _ "[PostFailed (announcement name (deliveries (KEYWORDS env) seen es ! k))]"]) simp
qed

lemma process_feed_shape:
  "\<exists>cs tail. trace (snd (snd (process_feed env name url state w)))
       = trace w @ Fetched url # post_events cs @ tail
     \<and> (tail = [] \<or> (\<exists>c. tail = [PostFailed c]) \<or> tail = [Warned name url])"
proof (cases "bozo (feedparser_parse env url) \<and> entries (feedparser_parse env url) = []")
  case True
  then show ?thesis
    by (intro exI [of _ "[]"] exI [of _ "[Warned name url]"])
      (simp add: process_feed_unavailable post_events_simps)
next
  case False
  obtain cs tail where
    "trace (snd (snd (feed_loop env name (rev (entries (feedparser_parse env url))) (seen_of state url) 0
        (w\<lparr>trace := trace w @ [Fetched url]\<rparr>))))
      = trace (w\<lparr>trace := trace w @ [Fetched url]\<rparr>) @ post_events cs @ tail"
    and "tail = [] \<or> (\<exists>c. tail = [PostFailed c])"
    using feed_loop_shape by blast
  then show ?thesis
    by (intro exI [of _ cs] exI [of _ tail])
      (auto simp: process_feed_loop [OF False] split: prod.splits)
qed

text \<open>
  Claim C7, as amended. In every call of \<^verbatim>\<open>process_feed\<close>, whatever the outcome of the
  requests, a pause follows each delivery, the last one included: there are as many pauses
  as deliveries.
\<close>

theorem pause_after_every_delivery:
  "pauses (emitted w (snd (snd (process_feed env name url state w))))
     = length (posted (emitted w (snd (snd (process_feed env name url state w)))))"
proof -
  obtain cs tail where
    t: "trace (snd (snd (process_feed env name url state w))) = trace w @ Fetched url # post_events cs @ tail"
    and "tail = [] \<or> (\<exists>c. tail = [PostFailed c]) \<or> tail = [Warned name url]"
    using process_feed_shape by blast
  then have "pauses tail = 0" "posted tail = []" by auto
  then show ?thesis
    by (simp add: emitted_append [OF t] pauses_append posted_append pauses_post_events
        posted_post_events)
qed

text \<open>
  Claim C7 as stated fails: a feed with one deliverable entry has one delivery and one
  pause, which comes after the delivery, where the claim has no pause.
\<close>

theorem pause_after_last_delivery:
  "emitted world0 (snd (snd (process_feed (one_feed_env [new1] []) ''Feed'' ''http://feed'' [] world0)))
     = [Fetched ''http://feed'', Posted (announcement ''Feed'' new1), Slept]
   \<and> length (posted (emitted world0
        (snd (snd (process_feed (one_feed_env [new1] []) ''Feed'' ''http://feed'' [] world0))))) = 1
   \<and> pauses (emitted world0
        (snd (snd (process_feed (one_feed_env [new1] []) ''Feed'' ''http://feed'' [] world0)))) = 1
   \<and> pauses (emitted world0
        (snd (snd (process_feed (one_feed_env [new1] []) ''Feed'' ''http://feed'' [] world0))))
       \<noteq> length (posted (emitted world0
        (snd (snd (process_feed (one_feed_env [new1] []) ''Feed'' ''http://feed'' [] world0))))) - 1"
proof -
  have D: "[new1] = deliveries (KEYWORDS (one_feed_env [new1] []))
      (seen_of [] ''http://feed'') (rev (entries (feedparser_parse (one_feed_env [new1] []) ''http://feed'')))"
    by (simp add: one_feed_env_simps seen_of_def eligible_def deliverable_examples)
  have "process_feed (one_feed_env [new1] []) ''Feed'' ''http://feed'' [] world0 =
     (Inr (length [new1]),
      AList.update ''http://feed'' (foldl record_id (seen_of [] ''http://feed'') (map uid_for [new1])) [],
      world0\<lparr>posts_made := posts_made world0 + length [new1],
        trace := trace world0 @ Fetched ''http://feed'' # post_events (map (announcement ''Feed'') [new1])\<rparr>)"
    by (rule process_feed_all_delivered [OF _ D]) (simp_all add: one_feed_env_simps)
  then show ?thesis
    by (simp add: emitted_def world0_def post_events_simps)
qed

subsection \<open>The lists of the other feeds\<close>


text \<open>
  Claim C10. A call of \<^verbatim>\<open>process_feed\<close> for a feed address leaves the list stored under
  every other address as it was, whether the call returns a count, returns 0 for a feed
  that could not be parsed, or ends with an error.
\<close>

theorem process_feed_frame:
  assumes "url' \<noteq> url"
  shows "map_of (fst (snd (process_feed env name url state w))) url' = map_of state url'"
proof (cases "bozo (feedparser_parse env url) \<and> entries (feedparser_parse env url) = []")
  case True
  then show ?thesis by (simp add: process_feed_unavailable)
next
  case False
  obtain r seen' w2 where
    "feed_loop env name (rev (entries (feedparser_parse env url))) (seen_of state url) 0
       (w\<lparr>trace := trace w @ [Fetched url]\<rparr>) = (r, seen', w2)"
    by (cases "feed_loop env name (rev (entries (feedparser_parse env url))) (seen_of state url) 0
       (w\<lparr>trace := trace w @ [Fetched url]\<rparr>)")
  with False have "fst (snd (process_feed env name url state w)) = AList.update url seen' state"
    by (simp add: process_feed_loop)
  with assms show ?thesis by (simp add: update_conv')
qed

theorem process_feed_frame_witness:
  "''http://other'' \<noteq> ''http://feed''
   \<and> map_of (fst (snd (process_feed (one_feed_env [new2, new1] [1]) ''Feed'' ''http://feed''
        [(''http://other'', [''x'']), (''http://feed'', [])] world0))) ''http://other'' = Some [''x'']
   \<and> fst (process_feed (one_feed_env [new2, new1] [1]) ''Feed'' ''http://feed''
        [(''http://other'', [''x'']), (''http://feed'', [])] world0) = Inl DeliveryFailed
   \<and> map_of (fst (snd (process_feed (one_feed_env [new2, new1] [1]) ''Feed'' ''http://feed''
        [(''http://other'', [''x'']), (''http://feed'', [])] world0))) ''http://feed''
       = Some [uid_for new1]"
proof -
  let ?env = "one_feed_env [new2, new1] [1]"
  let ?st = "[(''http://other'', [''x'']), (''http://feed'', [])]"
  have ne: "''http://other'' \<noteq> ''http://feed''" by simp
  have D: "[new1, new2] = deliveries (KEYWORDS ?env) (seen_of ?st ''http://feed'')
      (rev (entries (feedparser_parse ?env ''http://feed'')))"
    by (simp add: one_feed_env_simps seen_of_def eligible_def deliverable_examples uid_eval
        record_id_def remember_def)
  have "process_feed ?env ''Feed'' ''http://feed'' ?st world0 =
     (Inl DeliveryFailed,
      AList.update ''http://feed'' (foldl record_id (seen_of ?st ''http://feed'') (map uid_for (take 1 [new1, new2]))) ?st,
      world0\<lparr>posts_made := Suc (posts_made world0 + 1),
        trace := trace world0 @ Fetched ''http://feed'' # post_events (map (announcement ''Feed'') (take 1 [new1, new2]))
                   @ [PostFailed (announcement ''Feed'' ([new1, new2] ! 1))]\<rparr>)"
    by (rule process_feed_fails_at [OF D]) (simp_all add: one_feed_env_simps world0_def)
  then have r: "fst (process_feed ?env ''Feed'' ''http://feed'' ?st world0) = Inl DeliveryFailed"
    and s: "map_of (fst (snd (process_feed ?env ''Feed'' ''http://feed'' ?st world0))) ''http://feed''
       = Some [uid_for new1]"
    by (simp_all add: seen_of_def record_id_def remember_def)
  from process_feed_frame [OF ne, of ?env "''Feed''" ?st world0] r s show ?thesis
    by simp
qed

subsection \<open>A run over the feeds\<close>

lemma errors_printed_append: "errors_printed (xs @ ys) = errors_printed xs @ errors_printed ys"
  by (induction xs rule: errors_printed.induct) simp_all

lemma errors_printed_post_events: "errors_printed (post_events cs) = []"
  by (induction cs) (simp_all add: post_events_simps)

lemma process_feed_projections:
  obtains evs where
    "trace (snd (snd (process_feed env name url state w))) = trace w @ evs"
    "fetched evs = [url]" "saved evs = []" "errors_printed evs = []"
proof -
  obtain cs tail where
    t: "trace (snd (snd (process_feed env name url state w))) = trace w @ Fetched url # post_events cs @ tail"
    and "tail = [] \<or> (\<exists>c. tail = [PostFailed c]) \<or> tail = [Warned name url]"
    using process_feed_shape by blast
  then have "fetched tail = []" "saved tail = []" "errors_printed tail = []" by auto
  then have "fetched (Fetched url # post_events cs @ tail) = [url]"
    "saved (Fetched url # post_events cs @ tail) = []"
    "errors_printed (Fetched url # post_events cs @ tail) = []"
    by (simp_all add: fetched_append saved_append errors_printed_append fetched_post_events
        saved_post_events errors_printed_post_events)
  with t show thesis by (rule that)
qed

lemma run_feeds_projections:
  "\<exists>evs. trace (snd (snd (run_feeds env feeds state totals w))) = trace w @ evs
     \<and> fetched evs = map snd feeds \<and> saved evs = []
     \<and> errors_printed evs = failed_feeds feeds (feed_outcomes env feeds state w)"
proof (induction feeds arbitrary: state totals w)
  case Nil
  then show ?case by simp
next
  case (Cons feed feeds)
  obtain name url where feed: "feed = (name, url)" by (cases feed)
  obtain r state1 w1 where pf: "process_feed env name url state w = (r, state1, w1)"
    by (cases "process_feed env name url state w")
  obtain evs where e: "trace w1 = trace w @ evs" "fetched evs = [url]" "saved evs = []"
      "errors_printed evs = []"
    using process_feed_projections [of env name url state w] pf by auto
  show ?case
  proof (cases r)
    case (Inr n)
    obtain evs' where "trace (snd (snd (run_feeds env feeds state1 (totals + n) w1))) = trace w1 @ evs'"
      "fetched evs' = map snd feeds" "saved evs' = []"
      "errors_printed evs' = failed_feeds feeds (feed_outcomes env feeds state1 w1)"
      using Cons.IH by blast
    with e Inr pf feed show ?thesis
      by (intro exI [of _ "evs @ evs'"])
        (simp add: fetched_append saved_append errors_printed_append)
  next
    case (Inl err)
    let ?w = "emit (Errored name) w1"
    obtain evs' where "trace (snd (snd (run_feeds env feeds state1 totals ?w))) = trace ?w @ evs'"
      "fetched evs' = map snd feeds" "saved evs' = []"
      "errors_printed evs' = failed_feeds feeds (feed_outcomes env feeds state1 ?w)"
      using Cons.IH by blast
    with e Inl pf feed show ?thesis
      by (intro exI [of _ "evs @ Errored name # evs'"])
        (simp add: fetched_append saved_append errors_printed_append emit_def)
  qed
qed

lemma run_feeds_total:
  "fst (run_feeds env feeds state totals w)
     = totals + sum_list (map counted (feed_outcomes env feeds state w))"
proof (induction feeds arbitrary: state totals w)
  case Nil
  then show ?case by simp
next
  case (Cons feed feeds)
  obtain name url where feed: "feed = (name, url)" by (cases feed)
  obtain r state1 w1 where pf: "process_feed env name url state w = (r, state1, w1)"
    by (cases "process_feed env name url state w")
  show ?case
    by (cases r) (simp_all add: feed pf Cons.IH)
qed

lemma main_run:
  assumes "present (DISCORD_WEBHOOK env)" and "load_state f = Inr state"
  shows "main env f w =
    (Inr (fst (run_feeds env (FEEDS env) state 0 w)),
     save_state (fst (snd (run_feeds env (FEEDS env) state 0 w))) f,
     emit (Done (fst (run_feeds env (FEEDS env) state 0 w)))
       (emit (Saved (json_dump (fst (snd (run_feeds env (FEEDS env) state 0 w)))))
          (snd (snd (run_feeds env (FEEDS env) state 0 w)))))"
  using assms by (simp add: main_def split: prod.splits)

lemma save_state_complete: "save_state state f = Json (json_dump state)"
  by (simp add: save_state_def save_state_ops_def)

text \<open>
  Claim C9. In a run that gets past its start (the webhook address is set and the state
  file can be read), whatever requests fail: \<^verbatim>\<open>main\<close> returns normally; every configured
  feed is fetched, in the configured order; the name of each feed whose processing raised
  is printed; nothing is written while the feeds are processed; and the state is written
  once, after the last feed.
\<close>

theorem main_attempts_every_feed:
  assumes "present (DISCORD_WEBHOOK env)" and "load_state f = Inr state"
    and "run_feeds env (FEEDS env) state 0 w = (totals, state1, w1)"
  shows "main env f w = (Inr totals, Json (json_dump state1),
           w1\<lparr>trace := trace w1 @ [Saved (json_dump state1), Done totals]\<rparr>)
    \<and> fetched (emitted w w1) = map snd (FEEDS env)
    \<and> errors_printed (emitted w w1) = failed_feeds (FEEDS env) (feed_outcomes env (FEEDS env) state w)
    \<and> saved (emitted w w1) = []
    \<and> emitted w (snd (snd (main env f w))) = emitted w w1 @ [Saved (json_dump state1), Done totals]
    \<and> saved (emitted w (snd (snd (main env f w)))) = [json_dump state1]"
proof -
  obtain evs where e: "trace w1 = trace w @ evs" "fetched evs = map snd (FEEDS env)"
      "saved evs = []"
      "errors_printed evs = failed_feeds (FEEDS env) (feed_outcomes env (FEEDS env) state w)"
    using run_feeds_projections [of env "FEEDS env" state 0 w] assms(3) by auto
  have m: "main env f w = (Inr totals, Json (json_dump state1),
           w1\<lparr>trace := trace w1 @ [Saved (json_dump state1), Done totals]\<rparr>)"
    using main_run [OF assms(1,2), of w] assms(3) by (simp add: save_state_complete emit_def)
  have "emitted w w1 = evs" using e(1) by (rule emitted_append)
  moreover have "emitted w (snd (snd (main env f w))) = evs @ [Saved (json_dump state1), Done totals]"
    unfolding m using e(1) by (simp add: emitted_def)
  ultimately show ?thesis using m e by (simp add: saved_append)
qed

lemma two_feed_env_simps:
  "FEEDS two_feed_env = [(''A'', ''http://a''), (''B'', ''http://b'')]"
  "KEYWORDS two_feed_env = []"
  "DISCORD_WEBHOOK two_feed_env = Some ''https://discord/webhook''"
  "feedparser_parse two_feed_env url = \<lparr>bozo = False, entries = (if url = ''http://a'' then [new1] else [new2])\<rparr>"
  "post_succeeds two_feed_env i = (i \<noteq> 0)"
  by (simp_all add: two_feed_env_def source_KEYWORDS_def)

lemma two_feed_env_first:
  "process_feed two_feed_env ''A'' ''http://a'' [] world0 =
     (Inl DeliveryFailed, [(''http://a'', [])],
      \<lparr>posts_made = Suc 0, trace = [Fetched ''http://a'', PostFailed (announcement ''A'' new1)]\<rparr>)"
proof -
  have D: "[new1] = deliveries (KEYWORDS two_feed_env) (seen_of [] ''http://a'')
      (rev (entries (feedparser_parse two_feed_env ''http://a'')))"
    by (simp add: two_feed_env_simps seen_of_def eligible_def deliverable_examples)
  have "process_feed two_feed_env ''A'' ''http://a'' [] world0 =
     (Inl DeliveryFailed,
      AList.update ''http://a'' (foldl record_id (seen_of [] ''http://a'') (map uid_for (take 0 [new1]))) [],
      world0\<lparr>posts_made := Suc (posts_made world0 + 0),
        trace := trace world0 @ Fetched ''http://a'' # post_events (map (announcement ''A'') (take 0 [new1]))
                   @ [PostFailed (announcement ''A'' ([new1] ! 0))]\<rparr>)"
    by (rule process_feed_fails_at [OF D]) (simp_all add: two_feed_env_simps world0_def)
  then show ?thesis by (simp add: seen_of_def world0_def post_events_simps)
qed

lemma two_feed_env_second:
  "process_feed two_feed_env ''B'' ''http://b'' [(''http://a'', [])]
     \<lparr>posts_made = Suc 0, trace = tr\<rparr> =
     (Inr 1, [(''http://a'', []), (''http://b'', [uid_for new2])],
      \<lparr>posts_made = 2, trace = tr @ [Fetched ''http://b'', Posted (announcement ''B'' new2), Slept]\<rparr>)"
proof -
  let ?w = "\<lparr>posts_made = Suc 0, trace = tr\<rparr>"
  have D: "[new2] = deliveries (KEYWORDS two_feed_env) (seen_of [(''http://a'', [])] ''http://b'')
      (rev (entries (feedparser_parse two_feed_env ''http://b'')))"
    by (simp add: two_feed_env_simps seen_of_def eligible_def deliverable_examples)
  have "process_feed two_feed_env ''B'' ''http://b'' [(''http://a'', [])] ?w =
     (Inr (length [new2]),
      AList.update ''http://b'' (foldl record_id (seen_of [(''http://a'', [])] ''http://b'') (map uid_for [new2])) [(''http://a'', [])],
      ?w\<lparr>posts_made := posts_made ?w + length [new2],
        trace := trace ?w @ Fetched ''http://b'' # post_events (map (announcement ''B'') [new2])\<rparr>)"
    by (rule process_feed_all_delivered [OF _ D]) (simp_all add: two_feed_env_simps)
  then show ?thesis by (simp add: seen_of_def post_events_simps record_id_def remember_def)
qed

lemma two_feed_env_run:
  "run_feeds two_feed_env (FEEDS two_feed_env) [] 0 world0 =
     (1, [(''http://a'', []), (''http://b'', [uid_for new2])],
      \<lparr>posts_made = 2,
       trace = [Fetched ''http://a'', PostFailed (announcement ''A'' new1), Errored ''A'',
                Fetched ''http://b'', Posted (announcement ''B'' new2), Slept]\<rparr>)"
  by (simp add: two_feed_env_simps two_feed_env_first emit_def two_feed_env_second)

theorem main_attempts_every_feed_witness:
  "present (DISCORD_WEBHOOK two_feed_env) \<and> load_state Missing = Inr []
   \<and> main two_feed_env Missing world0 =
      (Inr 1, Json (json_dump [(''http://a'', []), (''http://b'', [uid_for new2])]),
       \<lparr>posts_made = 2,
        trace = [Fetched ''http://a'', PostFailed (announcement ''A'' new1), Errored ''A'',
                 Fetched ''http://b'', Posted (announcement ''B'' new2), Slept,
                 Saved (json_dump [(''http://a'', []), (''http://b'', [uid_for new2])]), Done 1]\<rparr>)
   \<and> fetched (emitted world0 (snd (snd (main two_feed_env Missing world0)))) = [''http://a'', ''http://b'']
   \<and> saved (emitted world0 (snd (snd (main two_feed_env Missing world0))))
       = [json_dump [(''http://a'', []), (''http://b'', [uid_for new2])]]"
proof -
  have p: "present (DISCORD_WEBHOOK two_feed_env)" by (simp add: two_feed_env_simps present_def)
  have l: "load_state Missing = Inr []" by (simp add: load_state_def)
  from main_attempts_every_feed [OF p l two_feed_env_run] p l show ?thesis
    by (simp add: fetched_append emitted_def world0_def)
qed

subsection \<open>The count of a feed that is aborted\<close>

text \<open>
  Claim C6, as amended. When the request for the \<open>k\<close>-th entry to deliver fails,
  \<^verbatim>\<open>process_feed\<close> ends with the error and returns no count, although \<open>k\<close> entries were
  delivered; the loop of \<^verbatim>\<open>main\<close> prints the error and goes on with the total it had, so
  that the total of the run is the sum of the counts of the feeds that completed.
\<close>

theorem aborted_feed_adds_no_count:
  assumes "D = deliveries (KEYWORDS env) (seen_of state url) (rev (entries (feedparser_parse env url)))"
    and "k < length D"
    and "\<forall>i < k. post_succeeds env (posts_made w + i)"
    and "\<not> post_succeeds env (posts_made w + k)"
    and "process_feed env name url state w = (r, state1, w1)"
  shows "r = Inl DeliveryFailed
    \<and> posted (emitted w w1) = map (announcement name) (take k D)
    \<and> run_feeds env ((name, url) # feeds) state totals w
        = run_feeds env feeds state1 totals (emit (Errored name) w1)
    \<and> fst (run_feeds env ((name, url) # feeds) state totals w)
        = totals + sum_list (map counted (feed_outcomes env feeds state1 (emit (Errored name) w1)))"
proof -
  note pf = process_feed_fails_at [OF assms(1-4), of name]
  from pf assms(5) have r: "r = Inl DeliveryFailed"
    and t: "trace w1 = trace w @ Fetched url # post_events (map (announcement name) (take k D))
                   @ [PostFailed (announcement name (D ! k))]"
    by auto
  have p: "posted (emitted w w1) = map (announcement name) (take k D)"
    by (simp add: emitted_append [OF t] posted_append posted_post_events)
  have s: "run_feeds env ((name, url) # feeds) state totals w
        = run_feeds env feeds state1 totals (emit (Errored name) w1)"
    using assms(5) r by simp
  show ?thesis using r p s by (simp add: run_feeds_total)
qed

lemma world0_simps: "trace world0 = []" "posts_made world0 = 0"
  by (simp_all add: world0_def)

lemma failing_call:
  "process_feed (one_feed_env [new2, new1] [1]) ''Feed'' ''http://feed'' [] world0 =
     (Inl DeliveryFailed, [(''http://feed'', [uid_for new1])],
      \<lparr>posts_made = 2,
       trace = [Fetched ''http://feed'', Posted (announcement ''Feed'' new1), Slept,
                PostFailed (announcement ''Feed'' new2)]\<rparr>)"
proof -
  let ?env = "one_feed_env [new2, new1] [1]"
  have D: "[new1, new2] = deliveries (KEYWORDS ?env) (seen_of [] ''http://feed'')
      (rev (entries (feedparser_parse ?env ''http://feed'')))"
    by (simp add: one_feed_env_simps seen_of_def eligible_def deliverable_examples uid_eval
        record_id_def remember_def)
  have "process_feed ?env ''Feed'' ''http://feed'' [] world0 =
     (Inl DeliveryFailed,
      AList.update ''http://feed'' (foldl record_id (seen_of [] ''http://feed'') (map uid_for (take 1 [new1, new2]))) [],
      world0\<lparr>posts_made := Suc (posts_made world0 + 1),
        trace := trace world0 @ Fetched ''http://feed'' # post_events (map (announcement ''Feed'') (take 1 [new1, new2]))
                   @ [PostFailed (announcement ''Feed'' ([new1, new2] ! 1))]\<rparr>)"
    by (rule process_feed_fails_at [OF D]) (simp_all add: one_feed_env_simps world0_def)
  then show ?thesis
    by (simp add: seen_of_def record_id_def remember_def world0_def post_events_simps)
qed

theorem aborted_feed_adds_no_count_witness:
  "1 < length [new1, new2]
   \<and> post_succeeds (one_feed_env [new2, new1] [1]) (posts_made world0 + 0)
   \<and> \<not> post_succeeds (one_feed_env [new2, new1] [1]) (posts_made world0 + 1)
   \<and> posted (emitted world0 \<lparr>posts_made = 2,
       trace = [Fetched ''http://feed'', Posted (announcement ''Feed'' new1), Slept,
                PostFailed (announcement ''Feed'' new2)]\<rparr>) = [announcement ''Feed'' new1]
   \<and> fst (run_feeds (one_feed_env [new2, new1] [1]) [(''Feed'', ''http://feed'')] [] 0 world0) = 0"
proof -
  let ?env = "one_feed_env [new2, new1] [1]"
  have D: "[new1, new2] = deliveries (KEYWORDS ?env) (seen_of [] ''http://feed'')
      (rev (entries (feedparser_parse ?env ''http://feed'')))"
    by (simp add: one_feed_env_simps seen_of_def eligible_def deliverable_examples uid_eval
        record_id_def remember_def)
  have k: "1 < length [new1, new2]" by simp
  have ok: "\<forall>i < 1. post_succeeds ?env (posts_made world0 + i)"
    by (simp add: one_feed_env_simps world0_def)
  have no: "\<not> post_succeeds ?env (posts_made world0 + 1)"
    by (simp add: one_feed_env_simps world0_def)
  from aborted_feed_adds_no_count [OF D k ok no failing_call, of "[]" 0] k ok no
  show ?thesis by simp
qed

text \<open>
  Claim C6 as stated fails: with two entries to deliver and the second request failing, the
  call ends with the error and no count, and the run reports a total of 0 although one
  entry was delivered.
\<close>

theorem aborted_feed_count_is_lost:
  "fst (process_feed (one_feed_env [new2, new1] [1]) ''Feed'' ''http://feed'' [] world0)
     = Inl DeliveryFailed
   \<and> posted (emitted world0
        (snd (snd (process_feed (one_feed_env [new2, new1] [1]) ''Feed'' ''http://feed'' [] world0))))
     = [announcement ''Feed'' new1]
   \<and> fst (main (one_feed_env [new2, new1] [1]) Missing world0) = Inr 0
   \<and> posted (emitted world0 (snd (snd (main (one_feed_env [new2, new1] [1]) Missing world0))))
     = [announcement ''Feed'' new1]"
  by (simp add: failing_call main_def present_def load_state_def one_feed_env_simps emit_def
      emitted_def world0_simps del: One_nat_def)

subsection \<open>Writing the state file\<close>

lemma sorted_json_dump: "sorted (map fst (json_dump state))"
  by (simp add: json_dump_def)

lemma json_dump_example:
  "json_dump [(''http://b'', [''y'']), (''http://a'', [''x''])] = [(''http://a'', [''x'']), (''http://b'', [''y''])]"
  "json_dump [(''http://a'', [''x'']), (''http://b'', [''y''])] = [(''http://a'', [''x'']), (''http://b'', [''y''])]"
  by (simp_all add: json_dump_def)

lemma alist_eqI:
  "distinct (map fst xs) \<Longrightarrow> map fst xs = map fst ys \<Longrightarrow> map_of xs = map_of ys \<Longrightarrow> xs = ys"
proof (induction xs arbitrary: ys)
  case Nil
  then show ?case by simp
next
  case (Cons x xs)
  then obtain y ys' where ys: "ys = y # ys'" by (cases ys) auto
  with Cons.prems(2) have k: "fst x = fst y" and ks: "map fst xs = map fst ys'" by simp_all
  have eq: "map_of (x # xs) a = map_of (y # ys') a" for a
    using Cons.prems(3) unfolding ys by (rule fun_cong)
  from eq [of "fst x"] k have v: "snd x = snd y" by simp
  have nx: "fst x \<notin> fst ` set xs" using Cons.prems(1) by simp
  have "map_of xs = map_of ys'"
  proof
    fix a
    show "map_of xs a = map_of ys' a"
    proof (cases "a = fst x")
      case True
      with nx ks show ?thesis
        by (metis list.set_map map_of_eq_None_iff)
    next
      case False
      from eq [of a] False k show ?thesis by simp
    qed
  qed
  with Cons.IH [of ys'] Cons.prems(1) ks have "xs = ys'" by simp
  with k v ys show ?case by (simp add: prod_eq_iff)
qed

lemma json_dump_mapping:
  assumes "distinct (map fst s1)" "distinct (map fst s2)" "map_of s1 = map_of s2"
  shows "json_dump s1 = json_dump s2"
proof -
  have set: "set s1 = set s2" using assms by (simp add: map_of_inject_set)
  have d1: "distinct (map fst (json_dump s1))" and d2: "distinct (map fst (json_dump s2))"
    using assms(1,2) by (simp_all add: json_dump_def distinct_map inj_on_def)
  have "map fst (json_dump s1) = map fst (json_dump s2)"
  proof (rule sorted_distinct_set_unique)
    show "set (map fst (json_dump s1)) = set (map fst (json_dump s2))"
      using set by (simp add: json_dump_def)
  qed (simp_all add: d1 d2 sorted_json_dump)
  moreover have "map_of (json_dump s1) = map_of (json_dump s2)"
    using d1 d2 set by (simp add: map_of_inject_set json_dump_def)
  ultimately show ?thesis using d1 by (intro alist_eqI)
qed

text \<open>
  Claim C8, as amended. \<^verbatim>\<open>save_state\<close> overwrites the state file in place: once it has
  run to its end the file holds the state with its members ordered by key, the same
  document for every dictionary with the same content; a process that dies after the file
  was opened for writing and before the document is written leaves a file that cannot be
  read, neither the old state nor the new one.
\<close>

theorem save_state_overwrites_in_place:
  "save_state state f = Json (json_dump state)
   \<and> sorted (map fst (json_dump state))
   \<and> set (json_dump state) = set state
   \<and> length (json_dump state) = length state
   \<and> (distinct (map fst state) \<and> distinct (map fst state') \<and> map_of state = map_of state'
        \<longrightarrow> json_dump state = json_dump state')
   \<and> save_state_interrupted n state f =
       (if n = 0 then f else if n = 1 then Unparsable else Json (json_dump state))"
proof -
  have "save_state_interrupted n state f =
       (if n = 0 then f else if n = 1 then Unparsable else Json (json_dump state))"
  proof (cases n)
    case 0
    then show ?thesis by (simp add: save_state_interrupted_def)
  next
    case (Suc m)
    then show ?thesis by (cases m) (simp_all add: save_state_interrupted_def save_state_ops_def)
  qed
  then show ?thesis
    using json_dump_mapping [of state state']
    by (simp add: save_state_complete sorted_json_dump json_dump_def)
qed

theorem save_state_overwrites_in_place_witness:
  "distinct (map fst [(''http://b'', [''y'']), (''http://a'', [''x''])])
   \<and> distinct (map fst [(''http://a'', [''x'']), (''http://b'', [''y''])])
   \<and> map_of [(''http://b'', [''y'']), (''http://a'', [''x''])]
       = map_of [(''http://a'', [''x'']), (''http://b'', [''y''])]
   \<and> save_state [(''http://b'', [''y'']), (''http://a'', [''x''])] Missing
       = Json [(''http://a'', [''x'']), (''http://b'', [''y''])]
   \<and> json_dump [(''http://b'', [''y'']), (''http://a'', [''x''])]
       = json_dump [(''http://a'', [''x'']), (''http://b'', [''y''])]
   \<and> save_state_interrupted 1 [(''http://b'', [''y'']), (''http://a'', [''x''])] Missing = Unparsable"
proof -
  have m: "map_of [(''http://b'', [''y'']), (''http://a'', [''x''])]
       = map_of [(''http://a'', [''x'']), (''http://b'', [''y''])]"
    by (rule ext) simp
  from save_state_overwrites_in_place [of "[(''http://b'', [''y'']), (''http://a'', [''x''])]" Missing
      "[(''http://a'', [''x'']), (''http://b'', [''y''])]" 1] m
  show ?thesis by (simp add: json_dump_example)
qed

text \<open>
  Claim C8 as stated fails: after the first of the two file operations of \<^verbatim>\<open>save_state\<close>
  the file is neither the old document nor the new one, and \<^verbatim>\<open>load_state\<close> raises on it.
\<close>

theorem save_state_not_atomic:
  "save_state_interrupted 1 [(''http://feed'', [uid_for new1])] (Json [(''http://feed'', [])])
     = Unparsable
   \<and> Unparsable \<noteq> Json [(''http://feed'', [])]
   \<and> Unparsable \<noteq> save_state [(''http://feed'', [uid_for new1])] (Json [(''http://feed'', [])])
   \<and> load_state Unparsable = Inl JSONDecodeError"
  by (simp add: save_state_interrupted_def save_state_ops_def save_state_def load_state_def)

subsection \<open>A list at its bound\<close>

lemma seen_of_update: "seen_of (AList.update url v state) url = v"
  by (simp add: seen_of_def update_conv')

lemma length_fillers: "length fillers = 499"
  by (simp add: fillers_def)

lemma fillers_shape: "x \<in> set fillers \<Longrightarrow> take 8 x = take 8 (drop 8 x)"
  by (auto simp: fillers_def hexdigest_def length_hex32 replicate_numeral)

lemma uid_not_filler:
  "uid_for new1 \<notin> set fillers" "uid_for new2 \<notin> set fillers" "uid_for old_entry \<notin> set fillers"
  using fillers_shape [of "uid_for new1"] fillers_shape [of "uid_for new2"]
    fillers_shape [of "uid_for old_entry"]
  by (auto simp: uid_eval)

lemma length_full_seen: "length full_seen = 500"
  by (simp add: full_seen_def length_fillers)



lemma uid_distinct:
  "uid_for new1 \<noteq> uid_for new2" "uid_for new2 \<noteq> uid_for new1"
  "uid_for new1 \<noteq> uid_for old_entry" "uid_for old_entry \<noteq> uid_for new1"
  "uid_for new2 \<noteq> uid_for old_entry" "uid_for old_entry \<noteq> uid_for new2"
  by (simp_all add: uid_eval)

lemma evict_old: "record_id full_seen (uid_for new1) = fillers @ [uid_for new1]"
  by (simp add: record_id_def remember_def full_seen_def length_fillers uid_not_filler uid_distinct)




lemma seen_of_single: "seen_of [(url, seen)] url = seen"
  by (simp add: seen_of_def)




subsection \<open>A second run on a list at its bound\<close>





















subsection \<open>The entries reached and the eligible entries\<close>

lemma set_record_id: "set (record_id seen uid) \<subseteq> insert uid (set seen)"
  using set_remember [of seen uid] by (auto simp: record_id_def)





lemma successes_le: "successes env a n \<le> n"
  by (induction n arbitrary: a) simp_all

lemma successes_ok: "i < successes env a n \<Longrightarrow> post_succeeds env (a + i)"
proof (induction n arbitrary: a i)
  case 0
  then show ?case by simp
next
  case (Suc n)
  then have ok: "post_succeeds env a" by (simp split: if_splits)
  show ?case
  proof (cases i)
    case 0
    with ok show ?thesis by simp
  next
    case (Suc j)
    with Suc.prems ok have "j < successes env (Suc a) n" by simp
    from Suc.IH [OF this] Suc show ?thesis by simp
  qed
qed

lemma successes_stop: "successes env a n < n \<Longrightarrow> \<not> post_succeeds env (a + successes env a n)"
proof (induction n arbitrary: a)
  case 0
  then show ?case by simp
next
  case (Suc n)
  show ?case
  proof (cases "post_succeeds env a")
    case False
    then show ?thesis by simp
  next
    case True
    with Suc.prems have "successes env (Suc a) n < n" by simp
    from Suc.IH [OF this] True show ?thesis by simp
  qed
qed

lemma successes_all: "\<forall>i. post_succeeds env i \<Longrightarrow> successes env a n = n"
  by (induction n arbitrary: a) simp_all


lemma deliveries_known:
  assumes "set cur \<subseteq> S"
    and "distinct (map uid_for (filter (\<lambda>e. deliverable kw e \<and> uid_for e \<notin> S) es))"
    and "\<forall>n < length es. deliverable kw (es ! n) \<and> uid_for (es ! n) \<in> S \<longrightarrow>
          uid_for (es ! n) \<in> set (foldl record_id cur
            (map uid_for (filter (\<lambda>e. deliverable kw e \<and> uid_for e \<notin> S) (take n es))))"
  shows "deliveries kw cur es = filter (\<lambda>e. deliverable kw e \<and> uid_for e \<notin> S) es"
  using assms
proof (induction es arbitrary: cur S)
  case Nil
  then show ?case by simp
next
  case (Cons entry rest)
  note IH = Cons.IH and prems = Cons.prems
  let ?u = "uid_for entry"
  let ?P = "\<lambda>S e. deliverable kw e \<and> uid_for e \<notin> S"
  have later: "deliverable kw (rest ! n) \<and> uid_for (rest ! n) \<in> S \<longrightarrow>
      uid_for (rest ! n) \<in> set (foldl record_id cur
        (map uid_for (filter (?P S) (entry # take n rest))))" if "n < length rest" for n
  proof -
    from that have "Suc n < length (entry # rest)" by simp
    with prems(3) have "deliverable kw ((entry # rest) ! Suc n) \<and> uid_for ((entry # rest) ! Suc n) \<in> S \<longrightarrow>
      uid_for ((entry # rest) ! Suc n) \<in> set (foldl record_id cur
        (map uid_for (filter (?P S) (take (Suc n) (entry # rest)))))" by blast
    then show ?thesis by simp
  qed
  consider (skip) "\<not> deliverable kw entry"
    | (known) "deliverable kw entry" "?u \<in> S"
    | (fresh) "deliverable kw entry" "?u \<notin> S"
    by blast
  then show ?case
  proof cases
    case skip
    have "deliveries kw cur rest = filter (?P S) rest"
    proof (intro IH allI impI)
      show "set cur \<subseteq> S" by (rule prems(1))
      show "distinct (map uid_for (filter (?P S) rest))" using prems(2) skip by simp
      fix n assume n: "n < length rest"
        and d: "deliverable kw (rest ! n) \<and> uid_for (rest ! n) \<in> S"
      from later [OF n] d skip
      show "uid_for (rest ! n) \<in> set (foldl record_id cur
            (map uid_for (filter (?P S) (take n rest))))" by simp
    qed
    with skip show ?thesis by (simp add: eligible_def)
  next
    case known
    from prems(3) have "deliverable kw ((entry # rest) ! 0) \<and> uid_for ((entry # rest) ! 0) \<in> S \<longrightarrow>
      uid_for ((entry # rest) ! 0) \<in> set (foldl record_id cur
        (map uid_for (filter (?P S) (take 0 (entry # rest)))))" by blast
    with known have "?u \<in> set cur" by simp
    then have no: "\<not> eligible kw cur entry" by (simp add: eligible_def)
    have "deliveries kw cur rest = filter (?P S) rest"
    proof (intro IH allI impI)
      show "set cur \<subseteq> S" by (rule prems(1))
      show "distinct (map uid_for (filter (?P S) rest))" using prems(2) known by simp
      fix n assume n: "n < length rest"
        and d: "deliverable kw (rest ! n) \<and> uid_for (rest ! n) \<in> S"
      from later [OF n] d known
      show "uid_for (rest ! n) \<in> set (foldl record_id cur
            (map uid_for (filter (?P S) (take n rest))))" by simp
    qed
    with no known show ?thesis by simp
  next
    case fresh
    let ?cur = "record_id cur ?u"
    have notin: "?u \<notin> set cur" using prems(1) fresh by auto
    then have el: "eligible kw cur entry" using fresh by (simp add: eligible_def)
    have new: "?u \<notin> uid_for ` set (filter (?P S) rest)"
      and dist: "distinct (map uid_for (filter (?P S) rest))"
      using prems(2) fresh by simp_all
    have same: "filter (?P (insert ?u S)) xs = filter (?P S) xs" if "set xs \<subseteq> set rest" for xs
    proof (rule filter_cong [OF refl])
      fix x assume "x \<in> set xs"
      with that have x: "x \<in> set rest" by blast
      show "(deliverable kw x \<and> uid_for x \<notin> insert ?u S) = (deliverable kw x \<and> uid_for x \<notin> S)"
      proof (cases "deliverable kw x \<and> uid_for x \<notin> S")
        case True
        with x have "x \<in> set (filter (?P S) rest)" by simp
        then have "uid_for x \<in> uid_for ` set (filter (?P S) rest)" by (rule imageI)
        with new have "uid_for x \<noteq> ?u" by metis
        with True show ?thesis by simp
      next
        case False
        then show ?thesis by auto
      qed
    qed
    have "deliveries kw ?cur rest = filter (?P (insert ?u S)) rest"
    proof (intro IH allI impI)
      show "set ?cur \<subseteq> insert ?u S"
        using set_record_id [of cur ?u] prems(1) by auto
      show "distinct (map uid_for (filter (?P (insert ?u S)) rest))"
        using dist same [of rest] by simp
      fix n assume n: "n < length rest"
        and d: "deliverable kw (rest ! n) \<and> uid_for (rest ! n) \<in> insert ?u S"
      have "uid_for (rest ! n) \<noteq> ?u"
      proof
        assume eq: "uid_for (rest ! n) = ?u"
        with d fresh n have "rest ! n \<in> set (filter (?P S) rest)" by simp
        then have "uid_for (rest ! n) \<in> uid_for ` set (filter (?P S) rest)" by (rule imageI)
        with new eq show False by simp
      qed
      with d have "deliverable kw (rest ! n) \<and> uid_for (rest ! n) \<in> S" by simp
      with later [OF n] fresh
      have "uid_for (rest ! n) \<in> set (foldl record_id ?cur
          (map uid_for (filter (?P S) (take n rest))))" by simp
      moreover have "filter (?P (insert ?u S)) (take n rest) = filter (?P S) (take n rest)"
        by (rule same) (rule set_take_subset)
      ultimately show "uid_for (rest ! n) \<in> set (foldl record_id ?cur
          (map uid_for (filter (?P (insert ?u S)) (take n rest))))" by simp
    qed
    with el fresh same [of rest] show ?thesis by simp
  qed
qed

lemma deliveries_eligible:
  assumes "distinct (map uid_for (filter (eligible kw seen) es))"
    and "known_when_reached kw seen es"
  shows "deliveries kw seen es = filter (eligible kw seen) es"
proof -
  have e: "eligible kw seen = (\<lambda>e. deliverable kw e \<and> uid_for e \<notin> set seen)"
    by (rule ext) (simp add: eligible_def)
  show ?thesis
    unfolding e
  proof (rule deliveries_known)
    show "set seen \<subseteq> set seen" by simp
    show "distinct (map uid_for (filter (\<lambda>e. deliverable kw e \<and> uid_for e \<notin> set seen) es))"
      using assms(1) unfolding e .
    show "\<forall>n < length es. deliverable kw (es ! n) \<and> uid_for (es ! n) \<in> set seen \<longrightarrow>
          uid_for (es ! n) \<in> set (foldl record_id seen
            (map uid_for (filter (\<lambda>e. deliverable kw e \<and> uid_for e \<notin> set seen) (take n es))))"
      using assms(2) unfolding known_when_reached_def e .
  qed
qed

subsection \<open>Order and choice of the deliveries\<close>

lemma process_feed_outcome:
  assumes "D = deliveries (KEYWORDS env) (seen_of state url) (rev (entries (feedparser_parse env url)))"
    and "k = successes env (posts_made w) (length D)"
  shows "fst (process_feed env name url state w)
      = (if k = length D then Inr (length D) else Inl DeliveryFailed)
    \<and> posted (emitted w (snd (snd (process_feed env name url state w))))
      = map (announcement name) (take k D)
    \<and> seen_of (fst (snd (process_feed env name url state w))) url
      = foldl record_id (seen_of state url) (map uid_for (take k D))"
proof (cases "bozo (feedparser_parse env url) \<and> entries (feedparser_parse env url) = []")
  case True
  then have "D = []" using assms(1) by simp
  then have "k = 0" using assms(2) by simp
  with True \<open>D = []\<close> show ?thesis
    by (simp add: process_feed_unavailable emitted_def)
next
  case False
  show ?thesis
  proof (cases "k = length D")
    case True
    have ok: "\<forall>i < length D. post_succeeds env (posts_made w + i)"
      using successes_ok [of _ env "posts_made w" "length D"] True assms(2) by auto
    from process_feed_all_delivered [OF False assms(1) ok, of name] True show ?thesis
      by (simp add: emitted_def posted_post_events seen_of_update)
  next
    case neq: False
    with successes_le [of env "posts_made w" "length D"] assms(2) have lt: "k < length D" by simp
    have ok: "\<forall>i < k. post_succeeds env (posts_made w + i)"
      using successes_ok [of _ env "posts_made w" "length D"] assms(2) by auto
    have no: "\<not> post_succeeds env (posts_made w + k)"
      using successes_stop [of env "posts_made w" "length D"] lt assms(2) by simp
    from process_feed_fails_at [OF assms(1) lt ok no, of name] neq show ?thesis
      by (simp add: emitted_def posted_append posted_post_events seen_of_update)
  qed
qed

text \<open>
  Claim C1, as amended. Take the entries the source returned in reverse order, and among them
  the eligible ones: title and link not empty after trimming, title accepted by the keyword
  filter, identifier not in the feed's list when the call starts. Let the eligible entries
  have different identifiers, and let no deliverable entry whose identifier is in the list
  when the call starts be reached after the bound of 500 has pushed that identifier out.
  Then \<^verbatim>\<open>process_feed\<close> posts the eligible entries in that order, up to the first one whose
  request fails: all of them, returning their number, when no request fails, and otherwise
  those before the failing one, ending with the error.
\<close>

theorem process_feed_delivers_oldest_first:
  assumes "E = filter (eligible (KEYWORDS env) (seen_of state url))
                 (rev (entries (feedparser_parse env url)))"
    and "distinct (map uid_for E)"
    and "known_when_reached (KEYWORDS env) (seen_of state url)
           (rev (entries (feedparser_parse env url)))"
    and "k = successes env (posts_made w) (length E)"
  shows "posted (emitted w (snd (snd (process_feed env name url state w))))
      = map (announcement name) (take k E)
    \<and> fst (process_feed env name url state w)
      = (if k = length E then Inr (length E) else Inl DeliveryFailed)
    \<and> ((\<forall>i. post_succeeds env i) \<longrightarrow> k = length E)"
proof -
  have D: "E = deliveries (KEYWORDS env) (seen_of state url) (rev (entries (feedparser_parse env url)))"
    using deliveries_eligible [of "KEYWORDS env" "seen_of state url"
        "rev (entries (feedparser_parse env url))"] assms(1-3) by simp
  from process_feed_outcome [OF D assms(4), of name] successes_all [of env "posts_made w" "length E"]
    assms(4)
  show ?thesis by simp
qed

subsection \<open>Instances of the order of deliveries\<close>

lemma eligible_full_seen:
  "eligible [] full_seen new1" "eligible [] full_seen new2" "\<not> eligible [] full_seen old_entry"
  by (simp_all add: eligible_def deliverable_examples full_seen_def uid_not_filler uid_distinct)

lemma successes_none_failing: "successes (one_feed_env es []) a n = n"
  by (rule successes_all) (simp add: one_feed_env_simps)

lemma successes_second_failing: "successes (one_feed_env es [1]) 0 2 = 1"
  by (simp add: numeral_2_eq_2 one_feed_env_simps)

lemma known_examples:
  "known_when_reached [] [] [new1, new2, new3]"
  "known_when_reached [] full_seen [old_entry, new1]"
  "known_when_reached [] full_seen [new1, new2]"
  by (simp_all add: known_when_reached_def All_less_Suc full_seen_def uid_not_filler uid_distinct)

text \<open>
  Three instances of the amended claim C1. An empty list and a source returning three new
  entries, newest first: the three are posted oldest first and counted. A list at the bound
  whose oldest identifier belongs to the oldest returned entry, and one new entry: the
  stored entry is reached before its identifier is pushed out, and only the new one is
  posted. A list at the bound and two new entries, the second request failing: only the
  older one is posted and the call ends with the error.
\<close>

theorem process_feed_delivers_oldest_first_witness:
  "distinct (map uid_for [new1, new2, new3])
   \<and> known_when_reached [] [] [new1, new2, new3]
   \<and> posted (emitted world0 (snd (snd (process_feed (one_feed_env [new3, new2, new1] [])
        ''Feed'' ''http://feed'' [] world0))))
      = [announcement ''Feed'' new1, announcement ''Feed'' new2, announcement ''Feed'' new3]
   \<and> fst (process_feed (one_feed_env [new3, new2, new1] []) ''Feed'' ''http://feed'' [] world0) = Inr 3
   \<and> length full_seen = 500
   \<and> filter (eligible [] full_seen) [old_entry, new1] = [new1]
   \<and> known_when_reached [] full_seen [old_entry, new1]
   \<and> posted (emitted world0 (snd (snd (process_feed (one_feed_env [new1, old_entry] [])
        ''Feed'' ''http://feed'' [(''http://feed'', full_seen)] world0))))
      = [announcement ''Feed'' new1]
   \<and> fst (process_feed (one_feed_env [new1, old_entry] []) ''Feed'' ''http://feed''
        [(''http://feed'', full_seen)] world0) = Inr 1
   \<and> distinct (map uid_for [new1, new2])
   \<and> known_when_reached [] full_seen [new1, new2]
   \<and> posted (emitted world0 (snd (snd (process_feed (one_feed_env [new2, new1] [1])
        ''Feed'' ''http://feed'' [(''http://feed'', full_seen)] world0))))
      = [announcement ''Feed'' new1]
   \<and> fst (process_feed (one_feed_env [new2, new1] [1]) ''Feed'' ''http://feed''
        [(''http://feed'', full_seen)] world0) = Inl DeliveryFailed"
proof -
  let ?env = "one_feed_env [new3, new2, new1] []"
  have E: "[new1, new2, new3] = filter (eligible (KEYWORDS ?env) (seen_of [] ''http://feed''))
      (rev (entries (feedparser_parse ?env ''http://feed'')))"
    by (simp add: one_feed_env_simps seen_of_def eligible_def deliverable_examples)
  have d: "distinct (map uid_for [new1, new2, new3])" by (simp add: uid_eval)
  have kn: "known_when_reached (KEYWORDS ?env) (seen_of [] ''http://feed'')
      (rev (entries (feedparser_parse ?env ''http://feed'')))"
    using known_examples(1) by (simp add: one_feed_env_simps seen_of_def)
  have k: "3 = successes ?env (posts_made world0) (length [new1, new2, new3])"
    by (simp only: successes_none_failing) simp
  note a = process_feed_delivers_oldest_first [OF E d kn k, of "''Feed''"]
  let ?st = "[(''http://feed'', full_seen)]"
  let ?env1 = "one_feed_env [new1, old_entry] []"
  have e1: "filter (eligible [] full_seen) [old_entry, new1] = [new1]"
    by (simp add: eligible_full_seen)
  have E1: "[new1] = filter (eligible (KEYWORDS ?env1) (seen_of ?st ''http://feed''))
      (rev (entries (feedparser_parse ?env1 ''http://feed'')))"
    by (simp add: one_feed_env_simps seen_of_single eligible_full_seen)
  have d1: "distinct (map uid_for [new1])" by simp
  have kn1: "known_when_reached (KEYWORDS ?env1) (seen_of ?st ''http://feed'')
      (rev (entries (feedparser_parse ?env1 ''http://feed'')))"
    using known_examples(2) by (simp add: one_feed_env_simps seen_of_single)
  have k1: "1 = successes ?env1 (posts_made world0) (length [new1])"
    by (simp only: successes_none_failing) simp
  note b = process_feed_delivers_oldest_first [OF E1 d1 kn1 k1, of "''Feed''"]
  let ?env2 = "one_feed_env [new2, new1] [1]"
  have E2: "[new1, new2] = filter (eligible (KEYWORDS ?env2) (seen_of ?st ''http://feed''))
      (rev (entries (feedparser_parse ?env2 ''http://feed'')))"
    by (simp add: one_feed_env_simps seen_of_single eligible_full_seen)
  have d2: "distinct (map uid_for [new1, new2])" by (simp add: uid_distinct)
  have kn2: "known_when_reached (KEYWORDS ?env2) (seen_of ?st ''http://feed'')
      (rev (entries (feedparser_parse ?env2 ''http://feed'')))"
    using known_examples(3) by (simp add: one_feed_env_simps seen_of_single)
  have k2: "1 = successes ?env2 (posts_made world0) (length [new1, new2])"
  proof -
    have "length [new1, new2] = 2" by simp
    then show ?thesis by (simp only: world0_simps successes_second_failing)
  qed
  note c = process_feed_delivers_oldest_first [OF E2 d2 kn2 k2, of "''Feed''"]
  from a b c d known_examples e1 d2 length_full_seen show ?thesis by simp
qed

lemma fifth_pass: "deliveries [] full_seen [new1, old_entry] = [new1, old_entry]"
proof -
  have "eligible [] (fillers @ [uid_for new1]) old_entry"
    by (simp add: eligible_def deliverable_examples uid_not_filler uid_distinct)
  with eligible_full_seen(1) show ?thesis by (simp add: evict_old)
qed

lemma twice_pass: "deliveries [] [] [new1, new1] = [new1]"
  by (simp add: eligible_def deliverable_examples record_id_def remember_def)

lemma posted_of_call:
  assumes "D = deliveries (KEYWORDS env) (seen_of state url) (rev (entries (feedparser_parse env url)))"
    and "\<forall>i. post_succeeds env i"
  shows "posted (emitted w (snd (snd (process_feed env name url state w))))
      = map (announcement name) D"
  using process_feed_outcome [OF assms(1) refl, where w = w and name = name]
    successes_all [OF assms(2)]
  by simp

text \<open>
  Claim C1 as stated fails in three ways. On a list at the bound whose oldest identifier
  belongs to an entry the source still returns after a new one, recording the new entry
  evicts that identifier, and the stored entry is posted again. When the source returns the
  same new entry twice, it is posted once. When the second request fails, the second
  eligible entry is not posted.
\<close>

theorem delivered_are_not_the_eligible:
  "posted (emitted world0 (snd (snd (process_feed (one_feed_env [old_entry, new1] [])
        ''Feed'' ''http://feed'' [(''http://feed'', full_seen)] world0))))
      = [announcement ''Feed'' new1, announcement ''Feed'' old_entry]
   \<and> filter (eligible [] full_seen) (rev [old_entry, new1]) = [new1]
   \<and> posted (emitted world0 (snd (snd (process_feed (one_feed_env [new1, new1] [])
        ''Feed'' ''http://feed'' [] world0))))
      = [announcement ''Feed'' new1]
   \<and> filter (eligible [] []) (rev [new1, new1]) = [new1, new1]
   \<and> posted (emitted world0 (snd (snd (process_feed (one_feed_env [new2, new1] [1])
        ''Feed'' ''http://feed'' [] world0))))
      = [announcement ''Feed'' new1]
   \<and> filter (eligible [] []) (rev [new2, new1]) = [new1, new2]"
proof -
  have 1: "posted (emitted world0 (snd (snd (process_feed (one_feed_env [old_entry, new1] [])
        ''Feed'' ''http://feed'' [(''http://feed'', full_seen)] world0))))
      = map (announcement ''Feed'') [new1, old_entry]"
    by (rule posted_of_call) (simp_all add: one_feed_env_simps seen_of_single fifth_pass
        del: deliveries.simps)
  have 2: "filter (eligible [] full_seen) (rev [old_entry, new1]) = [new1]"
    by (simp add: eligible_full_seen)
  have 3: "posted (emitted world0 (snd (snd (process_feed (one_feed_env [new1, new1] [])
        ''Feed'' ''http://feed'' [] world0))))
      = map (announcement ''Feed'') [new1]"
    by (rule posted_of_call) (simp_all add: one_feed_env_simps seen_of_def twice_pass
        del: deliveries.simps)
  have 4: "filter (eligible [] []) (rev [new1, new1]) = [new1, new1]"
    by (simp add: eligible_def deliverable_examples)
  have 5: "posted (emitted world0 (snd (snd (process_feed (one_feed_env [new2, new1] [1])
        ''Feed'' ''http://feed'' [] world0))))
      = [announcement ''Feed'' new1]"
    by (simp add: failing_call emitted_def world0_simps del: One_nat_def)
  have 6: "filter (eligible [] []) (rev [new2, new1]) = [new1, new2]"
    by (simp add: eligible_def deliverable_examples)
  from 1 2 3 4 5 6 show ?thesis by simp
qed

subsection \<open>The identifier, by cases\<close>

lemma sha1_hex_abb: "sha1_hex ''abb'' = ''c64d3fcde20c5cd03142171e5ac47a87aa3c8ace''"
  by (simp add: sha1_eval)

lemma sha1_hex_ab: "sha1_hex ''ab'' = ''da23614e02469a0d7c7bd1bdab5c9c474b1904dc''"
  by (simp add: sha1_eval)

lemma sha1_hex_empty: "sha1_hex '''' = ''da39a3ee5e6b4b0d3255bfef95601890afd80709''"
  by (simp add: sha1_eval)

lemma uid_base_cases:
  "uid_base entry =
     (if e_id entry \<noteq> None \<and> e_id entry \<noteq> Some [] then the (e_id entry)
      else if e_link entry \<noteq> None \<and> e_link entry \<noteq> Some [] then the (e_link entry)
      else or_empty (e_title entry) @ or_empty (e_published entry)
             @ (case e_updated entry of Some u \<Rightarrow> u | None \<Rightarrow> or_empty (e_published entry)))"
  by (simp add: uid_base_def present_def or_empty_def entry_get_updated_def split: option.splits)

text \<open>
  Claim C3, as amended. The identifier of an entry is the SHA-1 digest, written as forty
  lower-case hexadecimal digits, of a basis string: the \<^verbatim>\<open>id\<close> when it is present and not
  empty, else the link when it is present and not empty, else title, published and updated
  put together, where an absent title or published counts as empty and an absent updated
  counts as published (so as empty only when both are absent). Entries with the same basis
  have the same identifier.
\<close>

theorem uid_for_priority:
  "(\<forall>s. e_id entry = Some s \<and> s \<noteq> [] \<longrightarrow> uid_for entry = sha1_hex s)
   \<and> (\<forall>s. (e_id entry = None \<or> e_id entry = Some [])
           \<and> e_link entry = Some s \<and> s \<noteq> [] \<longrightarrow> uid_for entry = sha1_hex s)
   \<and> ((e_id entry = None \<or> e_id entry = Some []) \<and> (e_link entry = None \<or> e_link entry = Some [])
        \<longrightarrow> uid_for entry
            = sha1_hex (or_empty (e_title entry) @ or_empty (e_published entry)
                @ (case e_updated entry of Some u \<Rightarrow> u | None \<Rightarrow> or_empty (e_published entry))))
   \<and> length (uid_for entry) = 40
   \<and> set (uid_for entry) \<subseteq> set ''0123456789abcdef''
   \<and> (uid_base entry = uid_base entry' \<longrightarrow> uid_for entry = uid_for entry')"
proof -
  have "set (uid_for entry) \<subseteq> set ''0123456789abcdef''"
    unfolding uid_for_def by (rule set_sha1_hex)
  moreover have "length (uid_for entry) = 40"
    by (simp add: uid_for_def length_sha1_hex)
  moreover have "uid_base entry = uid_base entry' \<longrightarrow> uid_for entry = uid_for entry'"
    by (simp add: uid_for_def)
  moreover have "\<forall>s. e_id entry = Some s \<and> s \<noteq> [] \<longrightarrow> uid_for entry = sha1_hex s"
    by (simp add: uid_for_def uid_base_cases)
  moreover have "\<forall>s. (e_id entry = None \<or> e_id entry = Some [])
           \<and> e_link entry = Some s \<and> s \<noteq> [] \<longrightarrow> uid_for entry = sha1_hex s"
    by (auto simp: uid_for_def uid_base_cases)
  moreover have "(e_id entry = None \<or> e_id entry = Some [])
        \<and> (e_link entry = None \<or> e_link entry = Some [])
        \<longrightarrow> uid_for entry
            = sha1_hex (or_empty (e_title entry) @ or_empty (e_published entry)
                @ (case e_updated entry of Some u \<Rightarrow> u | None \<Rightarrow> or_empty (e_published entry)))"
    by (auto simp: uid_for_def uid_base_cases)
  ultimately show ?thesis by blast
qed

text \<open>
  Instances of the amended claim C3: the basis \<^verbatim>\<open>abc\<close> taken from the \<^verbatim>\<open>id\<close>, from the
  link, from title, published and updated, and from a title alone; an entry with title
  \<^verbatim>\<open>a\<close>, published \<^verbatim>\<open>b\<close> and no updated, whose basis is \<^verbatim>\<open>abb\<close>; and an entry with none of
  the fields, whose basis is empty.
\<close>

theorem uid_for_priority_witness:
  "uid_for entry_abc = ''a9993e364706816aba3e25717850c26c9cd0d89d''
   \<and> uid_for entry_link_abc = ''a9993e364706816aba3e25717850c26c9cd0d89d''
   \<and> uid_for entry_title_abc = ''a9993e364706816aba3e25717850c26c9cd0d89d''
   \<and> uid_for entry_title_only = ''a9993e364706816aba3e25717850c26c9cd0d89d''
   \<and> uid_for entry_undated = ''c64d3fcde20c5cd03142171e5ac47a87aa3c8ace''
   \<and> uid_for entry_blank = ''da39a3ee5e6b4b0d3255bfef95601890afd80709''
   \<and> uid_base entry_abc = uid_base entry_link_abc
   \<and> uid_for entry_abc = uid_for entry_link_abc"
proof -
  have 1: "uid_for entry_abc = sha1_hex ''abc''"
    using uid_for_priority [of entry_abc] by (simp add: entry_abc_def)
  have 2: "uid_for entry_link_abc = sha1_hex ''abc''"
    using uid_for_priority [of entry_link_abc] by (simp add: entry_link_abc_def)
  have 3: "uid_for entry_title_abc = sha1_hex ''abc''"
    using uid_for_priority [of entry_title_abc] by (simp add: entry_title_abc_def or_empty_def)
  have 4: "uid_for entry_title_only = sha1_hex ''abc''"
    using uid_for_priority [of entry_title_only] by (simp add: entry_title_only_def or_empty_def)
  have 5: "uid_for entry_undated = sha1_hex ''abb''"
    using uid_for_priority [of entry_undated] by (simp add: entry_undated_def or_empty_def)
  have 6: "uid_for entry_blank = sha1_hex ''''"
    using uid_for_priority [of entry_blank] by (simp add: entry_blank_def or_empty_def)
  have b: "uid_base entry_abc = uid_base entry_link_abc"
    by (simp add: uid_base_cases entry_abc_def entry_link_abc_def)
  have 7: "uid_for entry_abc = uid_for entry_link_abc"
    using uid_for_priority [of entry_abc entry_link_abc] b by simp
  from 1 2 3 4 5 6 b 7 show ?thesis by (simp add: sha1_hex_abc sha1_hex_abb sha1_hex_empty)
qed

text \<open>
  Claim C3 as stated fails for an entry of the feed parser that has neither \<^verbatim>\<open>id\<close> nor
  link, and has a published but no updated: its identifier is the digest of title, published
  and published again, not the digest of title and published with an empty string for the
  updated.
\<close>

theorem absent_updated_is_not_empty:
  "e_id entry_undated = None \<and> e_link entry_undated = None \<and> e_updated entry_undated = None
   \<and> uid_for entry_undated = ''c64d3fcde20c5cd03142171e5ac47a87aa3c8ace''
   \<and> sha1_hex (or_empty (e_title entry_undated) @ or_empty (e_published entry_undated)
        @ or_empty (e_updated entry_undated)) = ''da23614e02469a0d7c7bd1bdab5c9c474b1904dc''
   \<and> uid_for entry_undated
      \<noteq> sha1_hex (or_empty (e_title entry_undated) @ or_empty (e_published entry_undated)
           @ or_empty (e_updated entry_undated))"
proof -
  have 1: "uid_for entry_undated = sha1_hex ''abb''"
    by (simp add: uid_for_def uid_base_cases entry_undated_def or_empty_def)
  have 2: "or_empty (e_title entry_undated) @ or_empty (e_published entry_undated)
        @ or_empty (e_updated entry_undated) = ''ab''"
    by (simp add: entry_undated_def or_empty_def)
  show ?thesis unfolding 1 2 sha1_hex_abb sha1_hex_ab by (simp add: entry_undated_def)
qed

subsection \<open>A failed delivery and the next call\<close>















subsection \<open>A second run after a first one\<close>







end
